theory Spec2Isabelle
  imports Complex_Main
begin

section \<open>Values and the Math functions the program calls\<close>

text \<open>
  The program is JavaScript. Its numbers are modelled as reals: every operation below is the
  exact one of which the double operation is the rounding. The three kinds of value that the
  key handling distinguishes are kept apart: a number, \<open>undefined\<close> (what a function returns
  when it ends without a \<open>return\<close>) and \<open>null\<close>.
\<close>

datatype jsval = Number real | Undefined | Null

text \<open>
  \<open>Math.atan2(y, x)\<close>: the angle of the point \<open>(x, y)\<close>, in \<open>(-pi, pi]\<close>, and 0 at the origin.
\<close>

definition atan2 :: "real \<Rightarrow> real \<Rightarrow> real" where
  "atan2 b a =
     (if 0 < a then arctan (b / a)
      else if a < 0 then (if 0 \<le> b then arctan (b / a) + pi else arctan (b / a) - pi)
      else if 0 < b then pi / 2
      else if b < 0 then - (pi / 2)
      else 0)"

text \<open>\<open>Math.hypot(a, b)\<close>.\<close>

definition hypot :: "real \<Rightarrow> real \<Rightarrow> real" where
  "hypot a b = sqrt (a * a + b * b)"

section \<open>Geometry\<close>

text \<open>
  A \<open>DOMRect\<close> stores \<open>x\<close>, \<open>y\<close>, \<open>width\<close> and \<open>height\<close>; its \<open>left\<close>, \<open>top\<close>, \<open>right\<close> and
  \<open>bottom\<close> are read-only attributes that the platform computes from these four
  (\<open>left = min(x, x + width)\<close>, \<open>right = max(x, x + width)\<close>, and the same vertically).
\<close>

record DOMRect =
  rect_x :: real
  rect_y :: real
  rect_width :: real
  rect_height :: real

definition rect_left :: "DOMRect \<Rightarrow> real" where
  "rect_left r = min (rect_x r) (rect_x r + rect_width r)"

definition rect_right :: "DOMRect \<Rightarrow> real" where
  "rect_right r = max (rect_x r) (rect_x r + rect_width r)"

definition rect_top :: "DOMRect \<Rightarrow> real" where
  "rect_top r = min (rect_y r) (rect_y r + rect_height r)"

definition rect_bottom :: "DOMRect \<Rightarrow> real" where
  "rect_bottom r = max (rect_y r) (rect_y r + rect_height r)"

record Point =
  pt_x :: real
  pt_y :: real

text \<open>What \<open>getRectDiff\<close> returns.\<close>

record RectDiff =
  distance :: real
  areAligned :: bool
  midAngle :: real
  minAngle :: real

definition getMiddle :: "DOMRect \<Rightarrow> Point" where
  "getMiddle rect =
     \<lparr>pt_x = rect_left rect + rect_width rect / 2,
      pt_y = rect_top rect + rect_height rect / 2\<rparr>"

definition getAngle :: "Point \<Rightarrow> Point \<Rightarrow> real" where
  "getAngle a b = atan2 (pt_y b - pt_y a) (pt_x b - pt_x a)"

definition getAngleDiff :: "real \<Rightarrow> real \<Rightarrow> real" where
  "getAngleDiff a b =
     (let diff = b - a;
          angle = atan2 (sin diff) (cos diff)
      in \<bar>angle\<bar>)"

definition getRectDiff :: "DOMRect \<Rightarrow> DOMRect \<Rightarrow> RectDiff" where
  "getRectDiff rectA rectB =
     (let areAlignedVertically =
            (\<not> (rect_right rectA < rect_left rectB \<or> rect_left rectA > rect_right rectB));
          areAlignedHorizontally =
            (\<not> (rect_bottom rectA < rect_top rectB \<or> rect_top rectA > rect_bottom rectB));
          middleA = getMiddle rectA;
          middleB = getMiddle rectB;
          mid = getAngle middleA middleB
      in
        if areAlignedVertically \<and> areAlignedHorizontally then
          \<lparr>distance = 0, areAligned = True, midAngle = mid, minAngle = mid\<rparr>
        else if areAlignedVertically then
          \<lparr>distance = min \<bar>rect_top rectA - rect_bottom rectB\<bar>
                           \<bar>rect_bottom rectA - rect_top rectB\<bar>,
           areAligned = True,
           midAngle = mid,
           minAngle = (if rect_top rectA < rect_bottom rectB then pi / 2 else pi * 3 / 2)\<rparr>
        else if areAlignedHorizontally then
          \<lparr>distance = min \<bar>rect_left rectA - rect_right rectB\<bar>
                           \<bar>rect_right rectA - rect_left rectB\<bar>,
           areAligned = True,
           midAngle = mid,
           minAngle = (if rect_left rectA < rect_right rectB then 0 else pi)\<rparr>
        else
          \<lparr>distance = hypot (pt_x middleA - pt_x middleB) (pt_y middleA - pt_y middleB),
           areAligned = False,
           midAngle = mid,
           minAngle = mid\<rparr>)"

section \<open>The page\<close>

text \<open>
  An element of the page, with what the program reads of it: its bounding rectangle, the
  result of \<open>checkVisibility\<close>, whether it has a \<open>tabindex\<close> attribute and its \<open>tabIndex\<close>, its
  \<open>offsetWidth\<close>, and the four corner radii of its computed style as \<open>parseFloat\<close> reads
  them. \<open>acceptsFocus\<close> says whether a call of \<open>focus()\<close> on the element takes effect;
  \<open>ident\<close> tells two elements with the same properties apart.
\<close>

record element =
  ident :: nat
  boundingClientRect :: DOMRect
  checkVisibility :: bool
  acceptsFocus :: bool
  hasTabindexAttr :: bool
  tabIndex :: int
  offsetWidth :: real
  borderTopLeftRadius :: real
  borderTopRightRadius :: real
  borderBottomLeftRadius :: real
  borderBottomRightRadius :: real

text \<open>
  The document and window as the program sees them: the elements that match the selector of
  \<open>getFocusableElements\<close> in document order, the active element, and the size of the viewport.
\<close>

record page =
  querySelectorAll :: "element list"
  activeElement :: "element option"
  innerWidth :: real
  innerHeight :: real

text \<open>The calls that leave the program, in the order they are made.\<close>

datatype call =
    MoveFocusCall jsval
  | FocusCall element
  | ScrollIntoViewCall element
  | HistoryBack
  | PreventDefault
  | StopImmediatePropagation

text \<open>
  \<open>element.focus()\<close>: the element becomes the active one, or the call fails silently and
  nothing changes (the source: "Sometimes elements can't be focused for whatever reason, and
  then focus() just silently fails").
\<close>

definition focus :: "element \<Rightarrow> page \<Rightarrow> page" where
  "focus el p = (if acceptsFocus el then p\<lparr>activeElement := Some el\<rparr> else p)"

section \<open>Numbers that may be infinite or NaN\<close>

text \<open>
  Where the program can divide by zero or compute with \<open>undefined\<close>, the result is kept as a
  value of its own: a finite number, an infinity or NaN. Comparisons with NaN are false.
\<close>

datatype jsnum = Fin real | PosInf | NegInf | NaN

fun toNumber :: "jsval \<Rightarrow> jsnum" where
  "toNumber (Number v) = Fin v"
| "toNumber Undefined = NaN"
| "toNumber Null = Fin 0"

fun jsLess :: "jsnum \<Rightarrow> jsnum \<Rightarrow> bool" where
  "jsLess NaN _ = False"
| "jsLess _ NaN = False"
| "jsLess (Fin a) (Fin b) = (a < b)"
| "jsLess (Fin _) PosInf = True"
| "jsLess (Fin _) NegInf = False"
| "jsLess PosInf _ = False"
| "jsLess NegInf NegInf = False"
| "jsLess NegInf _ = True"

fun jsLessEq :: "jsnum \<Rightarrow> jsnum \<Rightarrow> bool" where
  "jsLessEq NaN _ = False"
| "jsLessEq _ NaN = False"
| "jsLessEq (Fin a) (Fin b) = (a \<le> b)"
| "jsLessEq (Fin _) PosInf = True"
| "jsLessEq (Fin _) NegInf = False"
| "jsLessEq PosInf PosInf = True"
| "jsLessEq PosInf _ = False"
| "jsLessEq NegInf _ = True"

text \<open>\<open>a / b\<close> for finite \<open>a\<close> and \<open>b\<close>.\<close>

definition jsDivide :: "real \<Rightarrow> real \<Rightarrow> jsnum" where
  "jsDivide a b =
     (if b \<noteq> 0 then Fin (a / b)
      else if 0 < a then PosInf
      else if a < 0 then NegInf
      else NaN)"

text \<open>\<open>a * b\<close> for finite \<open>b\<close>.\<close>

fun jsTimes :: "jsnum \<Rightarrow> real \<Rightarrow> jsnum" where
  "jsTimes (Fin a) b = Fin (a * b)"
| "jsTimes PosInf b = (if 0 < b then PosInf else if b < 0 then NegInf else NaN)"
| "jsTimes NegInf b = (if 0 < b then NegInf else if b < 0 then PosInf else NaN)"
| "jsTimes NaN b = NaN"

text \<open>\<open>Math.min(a, b)\<close> for finite \<open>a\<close>.\<close>

fun jsMin :: "real \<Rightarrow> jsnum \<Rightarrow> jsnum" where
  "jsMin a (Fin b) = Fin (min a b)"
| "jsMin a PosInf = Fin a"
| "jsMin a NegInf = NegInf"
| "jsMin a NaN = NaN"

text \<open>
  \<open>getAngleDiff\<close> when its second argument is any value: \<open>b - a\<close> converts \<open>b\<close> to a number, and
  NaN goes through \<open>Math.sin\<close>, \<open>Math.cos\<close>, \<open>Math.atan2\<close> and \<open>Math.abs\<close> unchanged.
\<close>

definition getAngleDiffJS :: "real \<Rightarrow> jsval \<Rightarrow> jsnum" where
  "getAngleDiffJS a b = (case toNumber b of Fin v \<Rightarrow> Fin (getAngleDiff a v) | _ \<Rightarrow> NaN)"

section \<open>Moving the focus\<close>

definition getFocusableElements :: "page \<Rightarrow> element list" where
  "getFocusableElements p =
     filter (\<lambda>el. \<not> hasTabindexAttr el \<or> 0 \<le> tabIndex el) (querySelectorAll p)"

text \<open>
  What \<open>moveFocus\<close> keeps of a candidate: the element, its rectangle, and the fields of
  \<open>getRectDiff\<close> spread into the same object.
\<close>

record Info = RectDiff +
  info_element :: element
  info_rect :: DOMRect

definition toInfo :: "DOMRect \<Rightarrow> element \<Rightarrow> Info" where
  "toInfo curRect el =
     (let r = boundingClientRect el;
          d = getRectDiff curRect r
      in \<lparr>distance = distance d, areAligned = areAligned d,
          midAngle = midAngle d, minAngle = minAngle d,
          info_element = el, info_rect = r\<rparr>)"

text \<open>The filter that removes the elements outside the cone of the direction.\<close>

definition inDirection :: "jsval \<Rightarrow> Info \<Rightarrow> bool" where
  "inDirection moveAngle info =
     (let maxAngle = pi / 4;
          angleDiff = getAngleDiffJS (minAngle info) moveAngle
      in jsLessEq angleDiff (Fin maxAngle))"

text \<open>The filter that removes the elements off the screen, unless they are aligned.\<close>

definition onScreenOrAligned :: "page \<Rightarrow> Info \<Rightarrow> bool" where
  "onScreenOrAligned p info =
     (if areAligned info then True
      else
        (let allowedOffScreen = 0.2;
             scrWidth = innerWidth p;
             scrHeight = innerHeight p;
             isOffScreen =
               (rect_right (info_rect info) < - scrWidth * allowedOffScreen
                \<or> rect_left (info_rect info) > scrWidth + scrWidth * allowedOffScreen
                \<or> rect_bottom (info_rect info) < - scrHeight * allowedOffScreen
                \<or> rect_top (info_rect info) > scrHeight + scrHeight * allowedOffScreen)
         in \<not> isOffScreen))"

text \<open>The comparator given to \<open>sort\<close>, as written: both angles are read from \<open>a\<close>.\<close>

definition compareInfo :: "jsval \<Rightarrow> Info \<Rightarrow> Info \<Rightarrow> int" where
  "compareInfo moveAngle a b =
     (let aSmallest = - 1;
          bSmallest = 1
      in
        if areAligned a \<and> \<not> areAligned b then aSmallest
        else if \<not> areAligned a \<and> areAligned b then bSmallest
        else if distance a < distance b then aSmallest
        else if distance b < distance a then bSmallest
        else
          (let aAngle = getAngleDiffJS (midAngle a) moveAngle;
               bAngle = getAngleDiffJS (midAngle a) moveAngle
           in
             if jsLess aAngle bAngle then aSmallest
             else if jsLess bAngle aAngle then bSmallest
             else 0))"

text \<open>
  \<open>Array.prototype.sort\<close> with a comparator: the language requires a stable sort, so for a
  comparator that is a consistent ordering the result is the one of this insertion sort
  (an element goes before the first one it does not compare greater than).
\<close>

fun insertSorted :: "('a \<Rightarrow> 'a \<Rightarrow> int) \<Rightarrow> 'a \<Rightarrow> 'a list \<Rightarrow> 'a list" where
  "insertSorted cmp v [] = [v]"
| "insertSorted cmp v (w # ws) =
     (if cmp v w \<le> 0 then v # w # ws else w # insertSorted cmp v ws)"

definition arraySort :: "('a \<Rightarrow> 'a \<Rightarrow> int) \<Rightarrow> 'a list \<Rightarrow> 'a list" where
  "arraySort cmp vs = foldr (insertSorted cmp) vs []"

text \<open>The constant \<open>elements\<close> of \<open>moveFocus\<close>: the candidates, filtered and ranked.\<close>

definition elements :: "jsval \<Rightarrow> page \<Rightarrow> element \<Rightarrow> Info list" where
  "elements moveAngle p currentElement =
     (let curRect = boundingClientRect currentElement
      in arraySort (compareInfo moveAngle)
           (filter (onScreenOrAligned p)
             (filter (inDirection moveAngle)
               (map (toInfo curRect)
                 (filter checkVisibility
                   (filter (\<lambda>el. el \<noteq> currentElement) (getFocusableElements p)))))))"

text \<open>
  \<open>elements.find(...)\<close>: each candidate in turn is asked to take the focus, and the first one
  that is the active element afterwards is returned. The result is that candidate (if any),
  the page after the calls, and the calls made.
\<close>

fun findFocussed :: "Info list \<Rightarrow> page \<Rightarrow> Info option \<times> page \<times> call list" where
  "findFocussed [] p = (None, p, [])"
| "findFocussed (info # rest) p =
     (let p1 = focus (info_element info) p
      in if Some (info_element info) = activeElement p1
         then (Some info, p1, [FocusCall (info_element info)])
         else (case findFocussed rest p1 of
                 (found, p2, cs) \<Rightarrow> (found, p2, FocusCall (info_element info) # cs)))"

definition moveFocus :: "jsval \<Rightarrow> page \<Rightarrow> page \<times> call list" where
  "moveFocus moveAngle p =
     (case getFocusableElements p of
        [] \<Rightarrow> (p, [])
      | first # _ \<Rightarrow>
          (case activeElement p of
             None \<Rightarrow> (focus first p, [FocusCall first])
           | Some currentElement \<Rightarrow>
               (case findFocussed (elements moveAngle p currentElement) p of
                  (None, p1, cs) \<Rightarrow> (p1, cs)
                | (Some focussed, p1, cs) \<Rightarrow>
                    (p1, cs @ [ScrollIntoViewCall (info_element focussed)]))))"

section \<open>The key listeners\<close>

text \<open>
  \<open>keyToAngle\<close>: each of the eight keys returns its angle. The \<open>default\<close> branch is the
  expression statement \<open>null;\<close> and returns nothing, so for every other key the function ends
  without a \<open>return\<close> and its value is \<open>undefined\<close>.
\<close>

definition keyToAngle :: "string \<Rightarrow> jsval" where
  "keyToAngle key =
     (if key = ''ArrowUp'' then Number (pi * 3 / 2)
      else if key = ''ArrowDown'' then Number (pi / 2)
      else if key = ''ArrowLeft'' then Number pi
      else if key = ''ArrowRight'' then Number 0
      else if key = ''w'' then Number (pi * 3 / 2)
      else if key = ''s'' then Number (pi / 2)
      else if key = ''a'' then Number pi
      else if key = ''d'' then Number 0
      else Undefined)"

text \<open>The state the listeners share: the page and \<open>lastEventTime\<close>.\<close>

record state =
  doc :: page
  lastEventTime :: real

definition initialState :: "page \<Rightarrow> state" where
  "initialState p = \<lparr>doc = p, lastEventTime = 0\<rparr>"

text \<open>
  The \<open>keydown\<close> listener. \<open>now1\<close> and \<open>now2\<close> are what the two calls of \<open>Date.now()\<close> return: the
  one of the test and the one that is stored. \<open>angle !== null\<close> is the strict comparison: it is
  false only for \<open>null\<close> itself.
\<close>

definition keydown :: "string \<Rightarrow> real \<Rightarrow> real \<Rightarrow> state \<Rightarrow> state \<times> call list" where
  "keydown key now1 now2 s =
     (let angle = keyToAngle key
      in
        if angle \<noteq> Null then
          (if now1 - lastEventTime s > 100 then
             (case moveFocus angle (doc s) of
                (p1, cs) \<Rightarrow>
                  (\<lparr>doc = p1, lastEventTime = now2\<rparr>,
                   MoveFocusCall angle # cs @ [PreventDefault, StopImmediatePropagation]))
           else (s, [PreventDefault, StopImmediatePropagation]))
        else if key = ''Backspace'' then
          (s, [HistoryBack, PreventDefault, StopImmediatePropagation])
        else (s, []))"

definition keyup :: "string \<Rightarrow> state \<Rightarrow> state \<times> call list" where
  "keyup key s =
     (let angle = keyToAngle key
      in
        if angle \<noteq> Null then (s\<lparr>lastEventTime := 0\<rparr>, [PreventDefault])
        else (s, []))"

text \<open>A run of the listeners over a sequence of key events; the calls of each event.\<close>

datatype event = KeyDown string real real | KeyUp string

fun handle :: "event \<Rightarrow> state \<Rightarrow> state \<times> call list" where
  "handle (KeyDown key now1 now2) s = keydown key now1 now2 s"
| "handle (KeyUp key) s = keyup key s"

fun run :: "state \<Rightarrow> event list \<Rightarrow> call list list" where
  "run s [] = []"
| "run s (e # es) = (case handle e s of (s1, cs) \<Rightarrow> cs # run s1 es)"

text \<open>
  What the statements about a run read off it: whether the calls of an event include a call
  of \<open>moveFocus\<close>, the readings of the clock an event makes, in order, the reading its test
  uses, and whether it is the \<open>keydown\<close> of a key that \<open>keyToAngle\<close> maps to an angle.
\<close>

fun isMoveFocusCall :: "call \<Rightarrow> bool" where
  "isMoveFocusCall (MoveFocusCall _) = True"
| "isMoveFocusCall _ = False"

definition invokesSelector :: "call list \<Rightarrow> bool" where
  "invokesSelector cs = list_ex isMoveFocusCall cs"

fun readings :: "event \<Rightarrow> real list" where
  "readings (KeyDown key now1 now2) = [now1, now2]"
| "readings (KeyUp key) = []"

fun checkTime :: "event \<Rightarrow> real" where
  "checkTime (KeyDown key now1 now2) = now1"
| "checkTime (KeyUp key) = 0"

fun isNavKeyDown :: "event \<Rightarrow> bool" where
  "isNavKeyDown (KeyDown key now1 now2) = (keyToAngle key \<noteq> Undefined)"
| "isNavKeyDown (KeyUp key) = False"

section \<open>The highlighter\<close>

definition lerp :: "real \<Rightarrow> real \<Rightarrow> real \<Rightarrow> real" where
  "lerp a b t = a + (b - a) * t"

definition easeOut :: "real \<Rightarrow> real" where
  "easeOut t = 1 - (1 - t) ^ 3"

record BorderRadius =
  topLeft :: jsnum
  topRight :: jsnum
  bottomLeft :: jsnum
  bottomRight :: jsnum

definition getBorderRadius :: "element option \<Rightarrow> BorderRadius" where
  "getBorderRadius elem =
     (case elem of
        None \<Rightarrow> \<lparr>topLeft = Fin 0, topRight = Fin 0, bottomLeft = Fin 0, bottomRight = Fin 0\<rparr>
      | Some el \<Rightarrow>
          (let r = boundingClientRect el;
               mx = max (rect_height r) (rect_width r);
               scale = jsDivide (rect_width r) (offsetWidth el)
           in \<lparr>topLeft = jsMin mx (jsTimes scale (borderTopLeftRadius el)),
               topRight = jsMin mx (jsTimes scale (borderTopRightRadius el)),
               bottomLeft = jsMin mx (jsTimes scale (borderBottomLeftRadius el)),
               bottomRight = jsMin mx (jsTimes scale (borderBottomRightRadius el))\<rparr>))"

text \<open>
  The state of the highlighter, and the head of its \<open>loop\<close>: the target follows the active
  element, and \<open>lerpPos\<close> is the factor with which every style property of the frame is
  interpolated. \<open>now1\<close> and \<open>now2\<close> are the two readings of \<open>Date.now()\<close>.
\<close>

record AnimationState =
  targetElement :: "element option"
  prevTargetElement :: "element option"
  targetChangeTime :: real

definition animationTime :: real where
  "animationTime = 300"

definition lerpPos :: "real \<Rightarrow> real \<Rightarrow> real" where
  "lerpPos now changeTime = easeOut (min 1 ((now - changeTime) / animationTime))"

definition loop :: "element option \<Rightarrow> real \<Rightarrow> real \<Rightarrow> AnimationState \<Rightarrow> AnimationState \<times> real" where
  "loop active now1 now2 st =
     (let st1 = (if targetElement st \<noteq> active
                 then \<lparr>targetElement = active,
                       prevTargetElement = targetElement st,
                       targetChangeTime = now1\<rparr>
                 else st)
      in (st1, lerpPos now2 (targetChangeTime st1)))"

text \<open>
  Successive frames: each one runs \<open>loop\<close> on the state the previous one left, with the active
  element it sees and its two readings of the clock. The result is the factor of each frame.
\<close>

fun frames :: "AnimationState \<Rightarrow> (element option \<times> real \<times> real) list \<Rightarrow> real list" where
  "frames st [] = []"
| "frames st ((active, now1, now2) # fs) =
     (case loop active now1 now2 st of (st1, factor) \<Rightarrow> factor # frames st1 fs)"

section \<open>The other script of the repository\<close>

text \<open>
  The repository holds a second script with the same geometry functions and with its own
  \<open>moveFocus\<close> and key listeners: one pass over the focusable elements that remembers the
  best candidate so far, a single call of \<open>focus()\<close>, and a \<open>switch\<close> over the key in each
  listener. Its names carry a \<open>2\<close> here.
\<close>

definition dirToAngle :: "string \<Rightarrow> jsval" where
  "dirToAngle direction =
     (if direction = ''ArrowUp'' then Number (pi * 3 / 2)
      else if direction = ''ArrowDown'' then Number (pi / 2)
      else if direction = ''ArrowLeft'' then Number pi
      else if direction = ''ArrowRight'' then Number 0
      else Undefined)"

text \<open>\<open>a + b\<close> for finite \<open>b\<close>.\<close>

fun jsPlus :: "jsnum \<Rightarrow> real \<Rightarrow> jsnum" where
  "jsPlus (Fin a) b = Fin (a + b)"
| "jsPlus PosInf b = PosInf"
| "jsPlus NegInf b = NegInf"
| "jsPlus NaN b = NaN"

text \<open>The variables of the pass: \<open>targetElement\<close>, \<open>minDistance\<close>, \<open>minAngle\<close>, \<open>minIsAligned\<close>.\<close>

record Best =
  best_target :: "element option"
  best_distance :: jsnum
  best_angle :: jsnum
  best_aligned :: bool

definition initialBest :: Best where
  "initialBest =
     \<lparr>best_target = None, best_distance = PosInf, best_angle = PosInf, best_aligned = False\<rparr>"

text \<open>
  The callback of \<open>forEach\<close>. It reads \<open>diff.isAligned\<close>, a property that \<open>getRectDiff\<close> does not
  return: the value is \<open>undefined\<close>, which counts as false in the condition.
\<close>

definition considerElement :: "page \<Rightarrow> element \<Rightarrow> jsval \<Rightarrow> Best \<Rightarrow> element \<Rightarrow> Best" where
  "considerElement p currentElement wantedAngle b el =
     (if el = currentElement then b
      else
        (let r = boundingClientRect el;
             diff = getRectDiff (boundingClientRect currentElement) r;
             maxAngle = pi / 4
         in
           if jsLess (Fin maxAngle) (getAngleDiffJS (minAngle diff) wantedAngle) then b
           else
             (let allowedOffScreen = 0.2;
                  isOffScreen =
                    (rect_right r < - innerWidth p * allowedOffScreen
                     \<or> rect_left r > innerWidth p * (1 + allowedOffScreen)
                     \<or> rect_bottom r < - innerHeight p * allowedOffScreen
                     \<or> rect_top r > innerHeight p * (1 + allowedOffScreen))
              in
                if \<not> areAligned diff \<and> isOffScreen then b
                else
                  (let angle = getAngleDiffJS (midAngle diff) wantedAngle;
                       isAligned = False
                   in
                     if best_aligned b \<and> \<not> areAligned diff then b
                     else if \<not> best_aligned b \<and> isAligned then
                       \<lparr>best_target = Some el, best_distance = Fin (distance diff),
                        best_angle = angle, best_aligned = True\<rparr>
                     else if jsLess (Fin (distance diff)) (best_distance b) then
                       \<lparr>best_target = Some el, best_distance = Fin (distance diff),
                        best_angle = angle, best_aligned = areAligned diff\<rparr>
                     else
                       (let tolerance = 5
                        in
                          if jsLessEq (Fin (distance diff)) (jsPlus (best_distance b) tolerance)
                             \<and> jsLess angle (best_angle b) then
                            \<lparr>best_target = Some el,
                             best_distance = jsMin (distance diff) (best_distance b),
                             best_angle = angle, best_aligned = areAligned diff\<rparr>
                          else b)))))"

definition moveFocus2 :: "string \<Rightarrow> page \<Rightarrow> page \<times> call list" where
  "moveFocus2 direction p =
     (case getFocusableElements p of
        [] \<Rightarrow> (p, [])
      | first # _ \<Rightarrow>
          (case activeElement p of
             None \<Rightarrow> (focus first p, [FocusCall first])
           | Some currentElement \<Rightarrow>
               (let wantedAngle = dirToAngle direction;
                    b = foldl (considerElement p currentElement wantedAngle) initialBest
                          (getFocusableElements p)
                in case best_target b of
                     None \<Rightarrow> (p, [])
                   | Some target \<Rightarrow>
                       (focus target p, [FocusCall target, ScrollIntoViewCall target]))))"

definition keydown2 :: "string \<Rightarrow> real \<Rightarrow> real \<Rightarrow> state \<Rightarrow> state \<times> call list" where
  "keydown2 key now1 now2 s =
     (if key = ''ArrowUp'' \<or> key = ''ArrowDown'' \<or> key = ''ArrowLeft'' \<or> key = ''ArrowRight'' then
        (if now1 - lastEventTime s > 100 then
           (case moveFocus2 key (doc s) of
              (p1, cs) \<Rightarrow>
                (\<lparr>doc = p1, lastEventTime = now2\<rparr>, cs @ [PreventDefault]))
         else (s, [PreventDefault]))
      else if key = ''Backspace'' then (s, [HistoryBack, PreventDefault])
      else (s, []))"

definition keyup2 :: "string \<Rightarrow> state \<Rightarrow> state \<times> call list" where
  "keyup2 key s =
     (if key = ''ArrowUp'' \<or> key = ''ArrowDown'' \<or> key = ''ArrowLeft'' \<or> key = ''ArrowRight'' then
        (s\<lparr>lastEventTime := 0\<rparr>, [PreventDefault])
      else (s, []))"

section \<open>Example elements\<close>

text \<open>
  A visible element of the given position and size that takes the focus when asked, and an
  element of the given size and \<open>offsetWidth\<close> whose style declares the same radius for its four
  corners.
\<close>

definition button :: "nat \<Rightarrow> real \<Rightarrow> real \<Rightarrow> real \<Rightarrow> real \<Rightarrow> element" where
  "button i x0 y0 w h =
     \<lparr>ident = i,
      boundingClientRect = \<lparr>rect_x = x0, rect_y = y0, rect_width = w, rect_height = h\<rparr>,
      checkVisibility = True, acceptsFocus = True,
      hasTabindexAttr = False, tabIndex = 0, offsetWidth = w,
      borderTopLeftRadius = 0, borderTopRightRadius = 0,
      borderBottomLeftRadius = 0, borderBottomRightRadius = 0\<rparr>"

definition pill :: "real \<Rightarrow> real \<Rightarrow> real \<Rightarrow> real \<Rightarrow> element" where
  "pill w h ow radius =
     \<lparr>ident = 0,
      boundingClientRect = \<lparr>rect_x = 0, rect_y = 0, rect_width = w, rect_height = h\<rparr>,
      checkVisibility = True, acceptsFocus = True,
      hasTabindexAttr = False, tabIndex = 0, offsetWidth = ow,
      borderTopLeftRadius = radius, borderTopRightRadius = radius,
      borderBottomLeftRadius = radius, borderBottomRightRadius = radius\<rparr>"

definition stubborn :: "nat \<Rightarrow> real \<Rightarrow> real \<Rightarrow> real \<Rightarrow> real \<Rightarrow> element" where
  "stubborn i x0 y0 w h = (button i x0 y0 w h)\<lparr>acceptsFocus := False\<rparr>"

text \<open>
  Pages of a viewport of 1000 by 800 pixels with the given focusable elements, the first of
  them holding the focus; and the same with no active element.
\<close>

definition pageOf :: "element list \<Rightarrow> page" where
  "pageOf els =
     \<lparr>querySelectorAll = els, activeElement = (case els of [] \<Rightarrow> None | el # _ \<Rightarrow> Some el),
      innerWidth = 1000, innerHeight = 800\<rparr>"

definition unfocusedPageOf :: "element list \<Rightarrow> page" where
  "unfocusedPageOf els =
     \<lparr>querySelectorAll = els, activeElement = None, innerWidth = 1000, innerHeight = 800\<rparr>"

text \<open>
  A focused element with a column of two candidates on its right, one on top of the other,
  both aligned with it and both 10 pixels away: the centre of the upper one lies 45 degrees
  above the direction to the right, the centre of the lower one about 7 degrees below it.
\<close>

definition tiePage :: page where
  "tiePage = pageOf [button 0 0 40 10 10, button 1 20 5 10 40, button 2 20 45 10 5]"

text \<open>
  A focused element with a far candidate that takes the focus and a near one that does not;
  the same with the near one only; a focused element below a wide one whose centre lies far to
  the right; and a focused element with a near candidate that is not aligned with it and a far
  one that is.
\<close>

definition retryPage :: page where
  "retryPage = pageOf [button 0 0 0 10 10, button 2 40 0 10 10, stubborn 1 20 0 10 10]"

definition stuckPage :: page where
  "stuckPage = pageOf [button 0 0 0 10 10, stubborn 1 20 0 10 10]"

definition upPage :: page where
  "upPage = pageOf [button 0 0 100 10 10, button 1 0 0 1000 10]"

definition mixPage :: page where
  "mixPage = pageOf [button 0 0 0 10 10, button 1 16 13 2 2, button 2 100 0 10 10]"

text \<open>
  Three \<open>keydown\<close> events of a held key: the second comes 9 ms after the first was handled,
  the third 101 ms after.
\<close>

definition rapidKeys :: "event list" where
  "rapidKeys =
     [KeyDown ''ArrowDown'' 1000 1001, KeyDown ''ArrowDown'' 1010 1010,
      KeyDown ''ArrowDown'' 1102 1103]"

text \<open>
  The order of the first two criteria of the ranking: an aligned candidate before one that is
  not, and among candidates of the same alignment the one that is not farther.
\<close>

definition ranksBefore :: "Info \<Rightarrow> Info \<Rightarrow> bool" where
  "ranksBefore a b =
     ((areAligned a \<and> \<not> areAligned b) \<or> (areAligned a = areAligned b \<and> distance a \<le> distance b))"

section \<open>Facts about angles\<close>

lemma atan2_bounds: "- pi < atan2 b a \<and> atan2 b a \<le> pi"
proof -
  have lo: "- (pi / 2) < arctan (b / a)" and hi: "arctan (b / a) < pi / 2"
    by (rule arctan_lbound, rule arctan_ubound)
  consider (pos) "0 < a" | (neg_up) "a < 0" "0 \<le> b" | (neg_dn) "a < 0" "b < 0" | (zero) "a = 0"
    by linarith
  then show ?thesis
  proof cases
    case pos
    then have "atan2 b a = arctan (b / a)" by (simp add: atan2_def)
    with lo hi show ?thesis using pi_gt_zero by linarith
  next
    case neg_up
    then have "b / a \<le> 0" by (simp add: divide_nonneg_neg)
    then have "arctan (b / a) \<le> 0" using arctan_le_zero_iff by blast
    moreover have "atan2 b a = arctan (b / a) + pi" using neg_up by (simp add: atan2_def)
    ultimately show ?thesis using lo pi_gt_zero by linarith
  next
    case neg_dn
    then have "0 < b / a" by (simp add: divide_neg_neg)
    then have "0 < arctan (b / a)" using zero_less_arctan_iff by blast
    moreover have "atan2 b a = arctan (b / a) - pi" using neg_dn by (simp add: atan2_def)
    ultimately show ?thesis using hi pi_gt_zero by linarith
  next
    case zero
    then have "atan2 b a = pi / 2 \<or> atan2 b a = - (pi / 2) \<or> atan2 b a = 0"
      by (simp add: atan2_def)
    then show ?thesis using pi_gt_zero by linarith
  qed
qed

lemma atan2_abs_le_pi: "\<bar>atan2 b a\<bar> \<le> pi"
  using atan2_bounds [of b a] by linarith

lemma atan2_uminus_abs: "\<bar>atan2 (- b) a\<bar> = \<bar>atan2 b a\<bar>"
proof -
  consider (pos) "0 < a" | (neg) "a < 0" | (zero) "a = 0"
    by linarith
  then show ?thesis
  proof cases
    case pos
    then show ?thesis by (simp add: atan2_def arctan_minus)
  next
    case neg
    consider "0 < b" | "b = 0" | "b < 0" by linarith
    then show ?thesis
      using neg by cases (simp_all add: atan2_def arctan_minus)
  next
    case zero
    then show ?thesis by (simp add: atan2_def)
  qed
qed

lemma getAngleDiff_self: "getAngleDiff a a = 0"
  by (simp add: getAngleDiff_def atan2_def)

lemma getAngleDiff_sym: "getAngleDiff a b = getAngleDiff b a"
proof -
  have "sin (a - b) = - sin (b - a)" and "cos (a - b) = cos (b - a)"
    by (metis minus_diff_eq sin_minus, metis minus_diff_eq cos_minus)
  then show ?thesis
    by (simp add: getAngleDiff_def Let_def atan2_uminus_abs)
qed

lemma getAngleDiff_range: "0 \<le> getAngleDiff a b \<and> getAngleDiff a b \<le> pi"
  by (simp add: getAngleDiff_def Let_def atan2_abs_le_pi)

lemma atan2_sin_cos:
  assumes "- pi < d" and "d \<le> pi"
  shows "atan2 (sin d) (cos d) = d"
proof -
  consider (mid) "- (pi / 2) < d" "d < pi / 2"
    | (up) "d = pi / 2" | (dn) "d = - (pi / 2)"
    | (left_up) "pi / 2 < d" | (left_dn) "d < - (pi / 2)"
    by linarith
  then show ?thesis
  proof cases
    case mid
    then have "0 < cos d" by (simp add: cos_gt_zero_pi)
    then have "atan2 (sin d) (cos d) = arctan (tan d)"
      by (simp add: atan2_def tan_def)
    with mid show ?thesis by (simp add: arctan_tan)
  next
    case up
    show ?thesis unfolding up by (simp add: atan2_def)
  next
    case dn
    show ?thesis unfolding dn by (simp add: atan2_def)
  next
    case left_up
    let ?e = "d - pi"
    have e: "- (pi / 2) < ?e" "?e < pi / 2" using left_up assms by simp_all
    then have pos: "0 < cos ?e" by (rule cos_gt_zero_pi)
    have ce: "cos ?e = - cos d" and se: "sin ?e = - sin d"
      by (simp_all add: cos_diff sin_diff)
    from pos ce have c: "cos d < 0" by linarith
    have "0 \<le> sin d" using left_up assms by (simp add: sin_ge_zero)
    with c have "atan2 (sin d) (cos d) = arctan (sin d / cos d) + pi"
      by (simp add: atan2_def)
    also have "sin d / cos d = tan ?e"
      unfolding tan_def ce se by simp
    also have "arctan (tan ?e) = ?e" using e by (rule arctan_tan)
    finally show ?thesis by simp
  next
    case left_dn
    let ?e = "d + pi"
    have e: "- (pi / 2) < ?e" "?e < pi / 2" using left_dn assms by simp_all
    then have pos: "0 < cos ?e" by (rule cos_gt_zero_pi)
    have ce: "cos ?e = - cos d" and se: "sin ?e = - sin d"
      by (simp_all add: cos_add sin_add)
    from pos ce have c: "cos d < 0" by linarith
    have "0 < sin (- d)" using left_dn assms by (intro sin_gt_zero) simp_all
    then have "sin d < 0" by simp
    with c have "atan2 (sin d) (cos d) = arctan (sin d / cos d) - pi"
      by (simp add: atan2_def)
    also have "sin d / cos d = tan ?e"
      unfolding tan_def ce se by simp
    also have "arctan (tan ?e) = ?e" using e by (rule arctan_tan)
    finally show ?thesis by simp
  qed
qed

lemma getAngleDiff_near:
  "- pi < b - a \<Longrightarrow> b - a \<le> pi \<Longrightarrow> getAngleDiff a b = \<bar>b - a\<bar>"
  by (simp add: getAngleDiff_def Let_def atan2_sin_cos)

lemma getAngleDiff_wrap:
  assumes "pi < b - a" and "b - a \<le> 3 * pi"
  shows "getAngleDiff a b = \<bar>b - a - 2 * pi\<bar>"
proof -
  let ?d = "b - a - 2 * pi"
  have s: "sin (b - a) = sin ?d" and c: "cos (b - a) = cos ?d"
    using sin_periodic [of ?d] cos_periodic [of ?d] by simp_all
  have "- pi < ?d" and "?d \<le> pi" using assms by simp_all
  then have "atan2 (sin ?d) (cos ?d) = ?d" by (rule atan2_sin_cos)
  then show ?thesis
    unfolding getAngleDiff_def Let_def s c by simp
qed

section \<open>Facts about rectangles\<close>

lemma rect_left_le_right: "rect_left r \<le> rect_right r"
  by (simp add: rect_left_def rect_right_def min_def max_def)

lemma rect_top_le_bottom: "rect_top r \<le> rect_bottom r"
  by (simp add: rect_top_def rect_bottom_def min_def max_def)

lemma getRectDiff_both_aligned:
  assumes "rect_left rectB \<le> rect_right rectA" and "rect_left rectA \<le> rect_right rectB"
    and "rect_top rectB \<le> rect_bottom rectA" and "rect_top rectA \<le> rect_bottom rectB"
  shows "distance (getRectDiff rectA rectB) = 0" and "areAligned (getRectDiff rectA rectB)"
  using assms by (simp_all add: getRectDiff_def Let_def not_less)

lemma above_relation:
  assumes ov: "max (rect_left a) (rect_left b) \<le> min (rect_right a) (rect_right b)"
    and top: "rect_top b < rect_top a"
    and gap: "\<not> max (rect_top a) (rect_top b) \<le> min (rect_bottom a) (rect_bottom b)"
  shows "areAligned (getRectDiff a b)" and "minAngle (getRectDiff a b) = pi * 3 / 2"
proof -
  have v: "\<not> (rect_right a < rect_left b \<or> rect_left a > rect_right b)"
    using ov by auto
  have "rect_top a \<le> rect_bottom a" by (rule rect_top_le_bottom)
  with top gap have below: "rect_bottom b < rect_top a"
    by (auto simp add: max_def min_def split: if_splits)
  then have h: "rect_top a > rect_bottom b" and n: "\<not> rect_top a < rect_bottom b"
    by simp_all
  from v h n show "areAligned (getRectDiff a b)" and "minAngle (getRectDiff a b) = pi * 3 / 2"
    by (simp_all add: getRectDiff_def Let_def)
qed

section \<open>Facts about the highlighter\<close>

lemma jsMin_not_greater: "\<not> jsLess (Fin m) (jsMin m v)"
  by (cases v) simp_all

lemma easeOut_mono: "a \<le> b \<Longrightarrow> easeOut a \<le> easeOut b"
proof -
  assume "a \<le> b"
  then have "1 - b \<le> 1 - a" by simp
  then have "(1 - b) ^ 3 \<le> (1 - a) ^ 3"
    by (rule power_mono_odd [rotated]) simp
  then show ?thesis by (simp add: easeOut_def)
qed

lemma lerpPos_mono: "n1 \<le> n2 \<Longrightarrow> lerpPos n1 t0 \<le> lerpPos n2 t0"
proof -
  assume "n1 \<le> n2"
  then have "(n1 - t0) / 300 \<le> (n2 - t0) / 300" by simp
  then have "min 1 ((n1 - t0) / 300) \<le> min 1 ((n2 - t0) / 300)"
    by (rule min.mono [OF order_refl])
  then show ?thesis
    unfolding lerpPos_def animationTime_def by (rule easeOut_mono)
qed

lemma loop_changed:
  "targetElement st \<noteq> active \<Longrightarrow>
     loop active now1 now2 st =
       (\<lparr>targetElement = active, prevTargetElement = targetElement st, targetChangeTime = now1\<rparr>,
        lerpPos now2 now1)"
  by (simp add: loop_def Let_def)

lemma loop_unchanged:
  "targetElement st = active \<Longrightarrow>
     loop active now1 now2 st = (st, lerpPos now2 (targetChangeTime st))"
  by (simp add: loop_def Let_def)

lemma frames_settled:
  assumes "targetElement st = active" and "\<forall>f \<in> set fs. fst f = active" and "k < length fs"
  shows "frames st fs ! k = lerpPos (snd (snd (fs ! k))) (targetChangeTime st)"
  using assms
proof (induction fs arbitrary: k)
  case Nil
  then show ?case by simp
next
  case (Cons f fs)
  obtain a n1 n2 where f: "f = (a, n1, n2)" by (cases f)
  with Cons.prems have a: "a = active" by simp
  show ?case
  proof (cases k)
    case 0
    then show ?thesis using f a Cons.prems(1) by (simp add: loop_unchanged)
  next
    case (Suc k')
    have rest: "\<forall>f \<in> set fs. fst f = active" and k': "k' < length fs"
      using Cons.prems Suc by auto
    have "frames st fs ! k' = lerpPos (snd (snd (fs ! k'))) (targetChangeTime st)"
      using Cons.prems(1) rest k' by (rule Cons.IH)
    then show ?thesis using Suc f a Cons.prems(1) by (simp add: loop_unchanged)
  qed
qed

lemma frames_after_change:
  assumes "targetElement st \<noteq> active" and "\<forall>f \<in> set fs. fst f = active" and "k < length fs"
  shows "frames st ((active, t0, t1) # fs) ! Suc k = lerpPos (snd (snd (fs ! k))) t0"
proof -
  let ?st1 = "\<lparr>targetElement = active, prevTargetElement = targetElement st, targetChangeTime = t0\<rparr>"
  have "frames st ((active, t0, t1) # fs) ! Suc k = frames ?st1 fs ! k"
    using assms(1) by (simp add: loop_changed)
  also have "\<dots> = lerpPos (snd (snd (fs ! k))) (targetChangeTime ?st1)"
    by (rule frames_settled [OF _ assms(2,3)]) simp
  finally show ?thesis by simp
qed

section \<open>Facts about the ranked candidates\<close>

lemma set_insertSorted: "set (insertSorted cmp v ws) = insert v (set ws)"
  by (induction ws) auto

lemma set_arraySort: "set (arraySort cmp vs) = set vs"
  unfolding arraySort_def by (induction vs) (simp_all add: set_insertSorted)

lemma info_element_toInfo: "info_element (toInfo curRect el) = el"
  by (simp add: toInfo_def Let_def)

lemma set_elements:
  "set (elements moveAngle p cur) =
     {i. \<exists>el. i = toInfo (boundingClientRect cur) el \<and> el \<in> set (getFocusableElements p) \<and>
          el \<noteq> cur \<and> checkVisibility el \<and> inDirection moveAngle i \<and> onScreenOrAligned p i}"
  by (auto simp add: elements_def Let_def set_arraySort)

lemma elements_not_current:
  "i \<in> set (elements moveAngle p cur) \<Longrightarrow> info_element i \<noteq> cur"
  by (auto simp add: set_elements info_element_toInfo)

lemma inDirection_Number:
  "inDirection (Number m) i = (\<not> pi / 4 < getAngleDiff (minAngle i) m)"
  by (simp add: inDirection_def getAngleDiffJS_def Let_def not_less)

lemma inDirection_Undefined: "\<not> inDirection Undefined i"
  by (simp add: inDirection_def getAngleDiffJS_def)

lemma elements_Undefined: "elements Undefined p cur = []"
  by (simp add: elements_def Let_def inDirection_Undefined arraySort_def)

lemma jsLess_irrefl: "\<not> jsLess v v"
  by (cases v) simp_all

lemma compareInfo_aligned_first:
  "areAligned a \<Longrightarrow> \<not> areAligned b \<Longrightarrow>
     compareInfo moveAngle a b = - 1 \<and> compareInfo moveAngle b a = 1"
  by (simp add: compareInfo_def)

lemma compareInfo_closer_first:
  "areAligned a = areAligned b \<Longrightarrow> distance a < distance b \<Longrightarrow>
     compareInfo moveAngle a b = - 1 \<and> compareInfo moveAngle b a = 1"
  by (auto simp add: compareInfo_def)

lemma compareInfo_tie:
  "areAligned a = areAligned b \<Longrightarrow> distance a = distance b \<Longrightarrow> compareInfo moveAngle a b = 0"
  by (auto simp add: compareInfo_def Let_def jsLess_irrefl)

lemma compareInfo_le_zero:
  "(compareInfo moveAngle a b \<le> 0) = ranksBefore a b"
  by (auto simp add: compareInfo_def Let_def jsLess_irrefl ranksBefore_def)

lemma ranksBefore_total: "\<not> ranksBefore a b \<Longrightarrow> ranksBefore b a"
  by (auto simp add: ranksBefore_def)

lemma ranksBefore_trans: "ranksBefore a b \<Longrightarrow> ranksBefore b c \<Longrightarrow> ranksBefore a c"
  by (auto simp add: ranksBefore_def)

lemma insertSorted_ranked:
  "sorted_wrt ranksBefore ws \<Longrightarrow> sorted_wrt ranksBefore (insertSorted (compareInfo moveAngle) v ws)"
proof (induction ws)
  case Nil
  then show ?case by simp
next
  case (Cons w ws)
  show ?case
  proof (cases "ranksBefore v w")
    case True
    with Cons.prems show ?thesis
      by (auto simp add: compareInfo_le_zero intro: ranksBefore_trans)
  next
    case False
    then have "ranksBefore w v" by (rule ranksBefore_total)
    with False Cons show ?thesis
      by (auto simp add: compareInfo_le_zero set_insertSorted)
  qed
qed

lemma arraySort_ranked: "sorted_wrt ranksBefore (arraySort (compareInfo moveAngle) vs)"
  unfolding arraySort_def by (induction vs) (simp_all add: insertSorted_ranked)

lemma elements_ranked: "sorted_wrt ranksBefore (elements moveAngle p cur)"
  by (simp add: elements_def Let_def arraySort_ranked)

lemma insertSorted_keeps_ties:
  "filter (\<lambda>i. areAligned i = al \<and> distance i = d) (insertSorted (compareInfo moveAngle) v ws) =
     (if areAligned v = al \<and> distance v = d
      then v # filter (\<lambda>i. areAligned i = al \<and> distance i = d) ws
      else filter (\<lambda>i. areAligned i = al \<and> distance i = d) ws)"
proof (induction ws)
  case Nil
  then show ?case by simp
next
  case (Cons w ws)
  show ?case
  proof (cases "ranksBefore v w")
    case True
    then show ?thesis by (simp add: compareInfo_le_zero)
  next
    case False
    then have "\<not> (areAligned v = areAligned w \<and> distance v = distance w)"
      by (auto simp add: ranksBefore_def)
    with False Cons show ?thesis
      by (auto simp add: compareInfo_le_zero)
  qed
qed

lemma arraySort_stable:
  "filter (\<lambda>i. areAligned i = al \<and> distance i = d) (arraySort (compareInfo moveAngle) vs) =
     filter (\<lambda>i. areAligned i = al \<and> distance i = d) vs"
  unfolding arraySort_def by (induction vs) (simp_all add: insertSorted_keeps_ties)

lemma ranking_of_three:
  assumes "areAligned a" "distance a = 50" and "areAligned b" "distance b = 10"
    and "\<not> areAligned c" "distance c = 1"
  shows "arraySort (compareInfo moveAngle) [a, b, c] = [b, a, c]"
    and "arraySort (compareInfo moveAngle) [a, c, b] = [b, a, c]"
    and "arraySort (compareInfo moveAngle) [b, a, c] = [b, a, c]"
    and "arraySort (compareInfo moveAngle) [b, c, a] = [b, a, c]"
    and "arraySort (compareInfo moveAngle) [c, a, b] = [b, a, c]"
    and "arraySort (compareInfo moveAngle) [c, b, a] = [b, a, c]"
  using assms by (simp_all add: arraySort_def compareInfo_def)

section \<open>Facts about the focus attempts\<close>

lemma findFocussed_walk:
  assumes "\<forall>i \<in> set infos. Some (info_element i) \<noteq> activeElement p"
  shows "findFocussed infos p =
     (case find (\<lambda>i. acceptsFocus (info_element i)) infos of
        None \<Rightarrow> (None, p, map (\<lambda>i. FocusCall (info_element i)) infos)
      | Some i \<Rightarrow>
          (Some i, p\<lparr>activeElement := Some (info_element i)\<rparr>,
           map (\<lambda>i. FocusCall (info_element i))
             (takeWhile (\<lambda>i. \<not> acceptsFocus (info_element i)) infos)
           @ [FocusCall (info_element i)]))"
  using assms
proof (induction infos)
  case Nil
  then show ?case by simp
next
  case (Cons a infos)
  show ?case
  proof (cases "acceptsFocus (info_element a)")
    case True
    then show ?thesis by (simp add: focus_def)
  next
    case False
    with Cons.prems have "focus (info_element a) p = p"
      and "Some (info_element a) \<noteq> activeElement p"
      by (simp_all add: focus_def)
    with Cons False show ?thesis
      by (simp split: option.splits)
  qed
qed

lemma find_map_elem: "find P (map f xs) = map_option f (find (\<lambda>v. P (f v)) xs)"
  by (induction xs) simp_all

lemma moveFocus_walk:
  assumes "activeElement p = Some cur"
  shows "moveFocus angle p =
     (let ranked = map info_element (elements angle p cur)
      in case find acceptsFocus ranked of
           None \<Rightarrow> (p, map FocusCall ranked)
         | Some el \<Rightarrow>
             (p\<lparr>activeElement := Some el\<rparr>,
              map FocusCall (takeWhile (\<lambda>e. \<not> acceptsFocus e) ranked)
              @ [FocusCall el, ScrollIntoViewCall el]))"
proof -
  let ?infos = "elements angle p cur"
  have "\<forall>i \<in> set ?infos. Some (info_element i) \<noteq> activeElement p"
    using assms elements_not_current by auto
  note walk = findFocussed_walk [OF this]
  show ?thesis
  proof (cases "getFocusableElements p")
    case Nil
    then have "?infos = []" by (simp add: elements_def arraySort_def)
    with Nil show ?thesis by (simp add: moveFocus_def)
  next
    case (Cons e0 rest)
    then show ?thesis
      using assms walk
      by (simp add: moveFocus_def Let_def find_map_elem takeWhile_map comp_def
          split: option.splits)
  qed
qed

lemma moveFocus_Undefined:
  "activeElement p = Some cur \<Longrightarrow> moveFocus Undefined p = (p, [])"
  by (simp add: moveFocus_walk elements_Undefined)

lemma findFocussed_calls:
  "findFocussed infos p = (r, p1, cs) \<Longrightarrow> set cs \<subseteq> range FocusCall"
proof (induction infos arbitrary: r p1 cs)
  case Nil
  then show ?case by simp
next
  case (Cons a infos)
  show ?case
  proof (cases "Some (info_element a) = activeElement (focus (info_element a) p)")
    case True
    with Cons.prems show ?thesis by (auto simp add: Let_def)
  next
    case False
    have same: "focus (info_element a) p = p"
      using False by (auto simp add: focus_def split: if_splits)
    obtain r2 p2 cs2 where rest: "findFocussed infos p = (r2, p2, cs2)"
      by (cases "findFocussed infos p") auto
    from Cons.prems False same rest have "cs = FocusCall (info_element a) # cs2"
      by (simp add: Let_def)
    with Cons.IH [OF rest] show ?thesis by auto
  qed
qed

lemma moveFocus_calls:
  "set (snd (moveFocus angle p)) \<subseteq> range FocusCall \<union> range ScrollIntoViewCall"
proof (cases "getFocusableElements p")
  case Nil
  then show ?thesis by (simp add: moveFocus_def)
next
  case (Cons e0 rest)
  show ?thesis
  proof (cases "activeElement p")
    case None
    with Cons show ?thesis by (simp add: moveFocus_def)
  next
    case (Some cur)
    obtain r p1 cs where f: "findFocussed (elements angle p cur) p = (r, p1, cs)"
      by (cases "findFocussed (elements angle p cur) p") auto
    from findFocussed_calls [OF f] Cons Some f show ?thesis
      by (cases r) (auto simp add: moveFocus_def)
  qed
qed

section \<open>Facts about the key listeners\<close>

lemma keyToAngle_not_Null: "keyToAngle key \<noteq> Null"
  by (simp add: keyToAngle_def)

lemma keydown_accepted:
  assumes "100 < now1 - lastEventTime s"
  shows "\<exists>p1 cs. keydown key now1 now2 s =
           (\<lparr>doc = p1, lastEventTime = now2\<rparr>,
            MoveFocusCall (keyToAngle key) # cs @ [PreventDefault, StopImmediatePropagation])"
  using assms by (cases "moveFocus (keyToAngle key) (doc s)") (simp add: keydown_def Let_def keyToAngle_not_Null)

lemma keydown_throttled:
  assumes "\<not> 100 < now1 - lastEventTime s"
  shows "keydown key now1 now2 s = (s, [PreventDefault, StopImmediatePropagation])"
  using assms by (simp add: keydown_def Let_def keyToAngle_not_Null)

lemma keydown_invokes_iff:
  "invokesSelector (snd (keydown key now1 now2 s)) = (100 < now1 - lastEventTime s)"
proof (cases "100 < now1 - lastEventTime s")
  case True
  from keydown_accepted [OF True, of key now2] show ?thesis
    using True by (auto simp add: invokesSelector_def)
next
  case False
  then show ?thesis by (simp add: keydown_throttled invokesSelector_def)
qed

lemma keydown_lastEventTime:
  "lastEventTime (fst (keydown key now1 now2 s)) =
     (if 100 < now1 - lastEventTime s then now2 else lastEventTime s)"
proof (cases "100 < now1 - lastEventTime s")
  case True
  from keydown_accepted [OF True, of key now2] show ?thesis
    using True by auto
next
  case False
  then show ?thesis by (simp add: keydown_throttled)
qed

lemma keydown_prevents_default:
  "PreventDefault \<in> set (snd (keydown key now1 now2 s))"
proof (cases "100 < now1 - lastEventTime s")
  case True
  from keydown_accepted [OF True, of key now2] show ?thesis by auto
next
  case False
  then show ?thesis by (simp add: keydown_throttled)
qed

lemma run_after_last:
  assumes "\<forall>e \<in> set evs. isNavKeyDown e"
    and "sorted (concat (map readings evs))"
    and "\<forall>t \<in> set (concat (map readings evs)). lastEventTime s \<le> t"
    and "j < length evs"
    and "invokesSelector (run s evs ! j)"
  shows "100 < checkTime (evs ! j) - lastEventTime s"
  using assms
proof (induction evs arbitrary: s j)
  case Nil
  then show ?case by simp
next
  case (Cons e es)
  from Cons.prems(1) obtain key a b where e: "e = KeyDown key a b"
    by (cases e) simp_all
  obtain s1 cs where h: "keydown key a b s = (s1, cs)" by (cases "keydown key a b s")
  then have s1: "s1 = fst (keydown key a b s)" and cs: "cs = snd (keydown key a b s)"
    by simp_all
  show ?case
  proof (cases j)
    case 0
    with Cons.prems(5) e h have "invokesSelector cs" by simp
    then show ?thesis using 0 e cs by (simp add: keydown_invokes_iff)
  next
    case (Suc j')
    have later: "\<forall>t \<in> set (concat (map readings es)). b \<le> t"
      using Cons.prems(2) e by auto
    have old: "\<forall>t \<in> set (concat (map readings es)). lastEventTime s \<le> t"
      using Cons.prems(3) by simp
    have "lastEventTime s \<le> b" using Cons.prems(3) e by simp
    then have ge: "lastEventTime s \<le> lastEventTime s1"
      unfolding s1 keydown_lastEventTime by simp
    have bound: "\<forall>t \<in> set (concat (map readings es)). lastEventTime s1 \<le> t"
      unfolding s1 keydown_lastEventTime using later old by simp
    have "100 < checkTime (es ! j') - lastEventTime s1"
    proof (rule Cons.IH [OF _ _ bound])
      show "\<forall>e \<in> set es. isNavKeyDown e" using Cons.prems(1) by simp
      show "sorted (concat (map readings es))"
        using Cons.prems(2) e by simp
      show "j' < length es" using Cons.prems(4) Suc by simp
      show "invokesSelector (run s1 es ! j')"
        using Cons.prems(5) Suc e h by simp
    qed
    with ge Suc show ?thesis by simp
  qed
qed

lemma run_spacing:
  assumes "\<forall>e \<in> set evs. isNavKeyDown e"
    and "sorted (concat (map readings evs))"
    and "i < j" and "j < length evs"
    and "invokesSelector (run s evs ! i)"
    and "invokesSelector (run s evs ! j)"
  shows "100 < checkTime (evs ! j) - checkTime (evs ! i)"
  using assms
proof (induction evs arbitrary: s i j)
  case Nil
  then show ?case by simp
next
  case (Cons e es)
  from Cons.prems(1) obtain key a b where e: "e = KeyDown key a b"
    by (cases e) simp_all
  obtain s1 cs where h: "keydown key a b s = (s1, cs)" by (cases "keydown key a b s")
  then have s1: "s1 = fst (keydown key a b s)" and cs: "cs = snd (keydown key a b s)"
    by simp_all
  from Cons.prems(3) obtain j' where j: "j = Suc j'" by (cases j) simp_all
  have nav: "\<forall>e \<in> set es. isNavKeyDown e" using Cons.prems(1) by simp
  have srt: "sorted (concat (map readings es))" using Cons.prems(2) e by simp
  have jl: "j' < length es" using Cons.prems(4) j by simp
  have invj: "invokesSelector (run s1 es ! j')" using Cons.prems(6) j e h by simp
  show ?case
  proof (cases i)
    case 0
    with Cons.prems(5) e h have "invokesSelector cs" by simp
    then have acc: "100 < a - lastEventTime s" using cs by (simp add: keydown_invokes_iff)
    then have last: "lastEventTime s1 = b" unfolding s1 keydown_lastEventTime by simp
    have "\<forall>t \<in> set (concat (map readings es)). lastEventTime s1 \<le> t"
      unfolding last using Cons.prems(2) e by auto
    from run_after_last [OF nav srt this jl invj]
    have "100 < checkTime (es ! j') - b" using last by simp
    moreover have "a \<le> b" using Cons.prems(2) e by simp
    ultimately show ?thesis using 0 j e by simp
  next
    case (Suc i')
    have "100 < checkTime (es ! j') - checkTime (es ! i')"
    proof (rule Cons.IH [OF nav srt _ jl _ invj])
      show "i' < j'" using Cons.prems(3) Suc j by simp
      show "invokesSelector (run s1 es ! i')" using Cons.prems(5) Suc e h by simp
    qed
    then show ?thesis using Suc j by simp
  qed
qed

lemma keyup_resets: "lastEventTime (fst (keyup key s)) = 0"
  by (simp add: keyup_def Let_def keyToAngle_not_Null)

lemma keydown_unmapped:
  assumes "keyToAngle key = Undefined" and "activeElement (doc s) = Some cur"
  shows "keydown key now1 now2 s =
     (if 100 < now1 - lastEventTime s
      then (s\<lparr>lastEventTime := now2\<rparr>,
            [MoveFocusCall Undefined, PreventDefault, StopImmediatePropagation])
      else (s, [PreventDefault, StopImmediatePropagation]))"
  using assms by (simp add: keydown_def Let_def moveFocus_Undefined)

lemma keydown_never_history_back: "HistoryBack \<notin> set (snd (keydown key now1 now2 s))"
proof (cases "100 < now1 - lastEventTime s")
  case True
  obtain p1 cs where m: "moveFocus (keyToAngle key) (doc s) = (p1, cs)"
    by (cases "moveFocus (keyToAngle key) (doc s)")
  with moveFocus_calls [of "keyToAngle key" "doc s"] have "HistoryBack \<notin> set cs" by auto
  with True m show ?thesis by (simp add: keydown_def Let_def keyToAngle_not_Null)
next
  case False
  then show ?thesis by (simp add: keydown_throttled)
qed

section \<open>Facts about the example pages\<close>

lemmas rect_simps = rect_left_def rect_right_def rect_top_def rect_bottom_def

lemma button_sel:
  "ident (button i x0 y0 w h) = i"
  "boundingClientRect (button i x0 y0 w h) =
     \<lparr>rect_x = x0, rect_y = y0, rect_width = w, rect_height = h\<rparr>"
  "checkVisibility (button i x0 y0 w h)"
  "acceptsFocus (button i x0 y0 w h)"
  "\<not> hasTabindexAttr (button i x0 y0 w h)"
  by (simp_all add: button_def)

lemma stubborn_sel:
  "ident (stubborn i x0 y0 w h) = i"
  "boundingClientRect (stubborn i x0 y0 w h) =
     \<lparr>rect_x = x0, rect_y = y0, rect_width = w, rect_height = h\<rparr>"
  "checkVisibility (stubborn i x0 y0 w h)"
  "\<not> acceptsFocus (stubborn i x0 y0 w h)"
  "\<not> hasTabindexAttr (stubborn i x0 y0 w h)"
  by (simp_all add: stubborn_def button_def)

lemma ident_neq: "ident a \<noteq> ident b \<Longrightarrow> a \<noteq> b"
  by auto

lemma tie_upper:
  "getRectDiff \<lparr>rect_x = 0, rect_y = 40, rect_width = 10, rect_height = 10\<rparr>
               \<lparr>rect_x = 20, rect_y = 5, rect_width = 10, rect_height = 40\<rparr>
   = \<lparr>distance = 10, areAligned = True, midAngle = - (pi / 4), minAngle = 0\<rparr>"
  by (simp add: getRectDiff_def Let_def rect_simps getMiddle_def getAngle_def atan2_def
      arctan_minus arctan_one)

lemma tie_lower:
  "getRectDiff \<lparr>rect_x = 0, rect_y = 40, rect_width = 10, rect_height = 10\<rparr>
               \<lparr>rect_x = 20, rect_y = 45, rect_width = 10, rect_height = 5\<rparr>
   = \<lparr>distance = 10, areAligned = True, midAngle = arctan (1 / 8), minAngle = 0\<rparr>"
  by (simp add: getRectDiff_def Let_def rect_simps getMiddle_def getAngle_def atan2_def)

lemma arctan_1_8: "0 < arctan (1 / 8 :: real)" "arctan (1 / 8 :: real) < pi / 4"
proof -
  show "0 < arctan (1 / 8 :: real)" by (simp add: zero_less_arctan_iff)
  have "arctan (1 / 8 :: real) < arctan 1" by (simp add: arctan_less_iff)
  then show "arctan (1 / 8 :: real) < pi / 4" by (simp add: arctan_one)
qed

lemma tie_angles:
  "getAngleDiff (- (pi / 4)) 0 = pi / 4" "getAngleDiff (arctan (1 / 8)) 0 = arctan (1 / 8)"
proof -
  have "- pi < 0 - (- (pi / 4))" and "0 - (- (pi / 4)) \<le> pi"
    using pi_gt_zero by linarith+
  then have "getAngleDiff (- (pi / 4)) 0 = \<bar>0 - (- (pi / 4))\<bar>"
    by (rule getAngleDiff_near)
  then show "getAngleDiff (- (pi / 4)) 0 = pi / 4"
    using pi_gt_zero by simp
  have "- pi < 0 - arctan (1 / 8 :: real)" and "0 - arctan (1 / 8 :: real) \<le> pi"
    using arctan_1_8 pi_gt_zero by linarith+
  then have "getAngleDiff (arctan (1 / 8)) 0 = \<bar>0 - arctan (1 / 8)\<bar>"
    by (rule getAngleDiff_near)
  with arctan_1_8 show "getAngleDiff (arctan (1 / 8)) 0 = arctan (1 / 8)" by simp
qed

lemma near_right:
  "getRectDiff \<lparr>rect_x = 0, rect_y = 0, rect_width = 10, rect_height = 10\<rparr>
               \<lparr>rect_x = 20, rect_y = 0, rect_width = 10, rect_height = 10\<rparr>
   = \<lparr>distance = 10, areAligned = True, midAngle = 0, minAngle = 0\<rparr>"
  by (simp add: getRectDiff_def Let_def rect_simps getMiddle_def getAngle_def atan2_def)

lemma far_right:
  "getRectDiff \<lparr>rect_x = 0, rect_y = 0, rect_width = 10, rect_height = 10\<rparr>
               \<lparr>rect_x = 40, rect_y = 0, rect_width = 10, rect_height = 10\<rparr>
   = \<lparr>distance = 30, areAligned = True, midAngle = 0, minAngle = 0\<rparr>"
  by (simp add: getRectDiff_def Let_def rect_simps getMiddle_def getAngle_def atan2_def)

lemma tie_elements:
  "elements (Number 0) tiePage (button 0 0 40 10 10) =
     [toInfo (boundingClientRect (button 0 0 40 10 10)) (button 1 20 5 10 40),
      toInfo (boundingClientRect (button 0 0 40 10 10)) (button 2 20 45 10 5)]"
  by (simp add: elements_def tiePage_def pageOf_def getFocusableElements_def Let_def toInfo_def
      tie_upper tie_lower button_sel ident_neq
      inDirection_def getAngleDiffJS_def getAngleDiff_self onScreenOrAligned_def
      arraySort_def compareInfo_def jsLess_irrefl)

lemma tiePage_active: "activeElement tiePage = Some (button 0 0 40 10 10)"
  by (simp add: tiePage_def pageOf_def)

lemma retry_elements:
  "map info_element (elements (Number 0) retryPage (button 0 0 0 10 10)) =
     [stubborn 1 20 0 10 10, button 2 40 0 10 10]"
  by (simp add: elements_def retryPage_def pageOf_def getFocusableElements_def Let_def toInfo_def
      near_right far_right button_sel stubborn_sel ident_neq
      inDirection_def getAngleDiffJS_def getAngleDiff_self onScreenOrAligned_def
      arraySort_def compareInfo_def)

lemma stuck_elements:
  "map info_element (elements (Number 0) stuckPage (button 0 0 0 10 10)) =
     [stubborn 1 20 0 10 10]"
  by (simp add: elements_def stuckPage_def pageOf_def getFocusableElements_def Let_def toInfo_def
      near_right button_sel stubborn_sel ident_neq
      inDirection_def getAngleDiffJS_def getAngleDiff_self onScreenOrAligned_def
      arraySort_def compareInfo_def)

lemma wide_above:
  "getRectDiff \<lparr>rect_x = 0, rect_y = 100, rect_width = 10, rect_height = 10\<rparr>
               \<lparr>rect_x = 0, rect_y = 0, rect_width = 1000, rect_height = 10\<rparr>
   = \<lparr>distance = 90, areAligned = True, midAngle = - arctan (20 / 99), minAngle = pi * 3 / 2\<rparr>"
  by (simp add: getRectDiff_def Let_def rect_simps getMiddle_def getAngle_def atan2_def
      arctan_minus [symmetric])

lemma wide_above_midAngle:
  "pi / 4 < getAngleDiff (- arctan (20 / 99)) (pi * 3 / 2)"
proof -
  have lo: "0 < arctan (20 / 99 :: real)" by (simp add: zero_less_arctan_iff)
  have "arctan (20 / 99 :: real) < arctan 1" by (simp add: arctan_less_iff)
  then have hi: "arctan (20 / 99 :: real) < pi / 4" by (simp add: arctan_one)
  have "getAngleDiff (- arctan (20 / 99)) (pi * 3 / 2)
      = \<bar>pi * 3 / 2 - (- arctan (20 / 99)) - 2 * pi\<bar>"
    using lo hi pi_gt_zero by (intro getAngleDiff_wrap) linarith+
  with lo hi show ?thesis by linarith
qed

lemma moveFocus_empty: "moveFocus angle (pageOf []) = (pageOf [], [])"
  by (simp add: moveFocus_def getFocusableElements_def pageOf_def)

lemma rapid_run:
  "run (initialState (pageOf [])) rapidKeys =
     [[MoveFocusCall (Number (pi / 2)), PreventDefault, StopImmediatePropagation],
      [PreventDefault, StopImmediatePropagation],
      [MoveFocusCall (Number (pi / 2)), PreventDefault, StopImmediatePropagation]]"
  by (simp add: rapidKeys_def initialState_def keydown_def Let_def keyToAngle_def moveFocus_empty)

lemma sqrt_225: "sqrt 225 = 15"
proof -
  have "sqrt ((15::real) ^ 2) = \<bar>15\<bar>" by (rule real_sqrt_abs)
  then show ?thesis by simp
qed

lemma mix_near:
  "getRectDiff \<lparr>rect_x = 0, rect_y = 0, rect_width = 10, rect_height = 10\<rparr>
               \<lparr>rect_x = 16, rect_y = 13, rect_width = 2, rect_height = 2\<rparr>
   = \<lparr>distance = 15, areAligned = False, midAngle = arctan (3 / 4), minAngle = arctan (3 / 4)\<rparr>"
  by (simp add: getRectDiff_def Let_def rect_simps getMiddle_def getAngle_def atan2_def
      hypot_def sqrt_225)

lemma mix_far:
  "getRectDiff \<lparr>rect_x = 0, rect_y = 0, rect_width = 10, rect_height = 10\<rparr>
               \<lparr>rect_x = 100, rect_y = 0, rect_width = 10, rect_height = 10\<rparr>
   = \<lparr>distance = 90, areAligned = True, midAngle = 0, minAngle = 0\<rparr>"
  by (simp add: getRectDiff_def Let_def rect_simps getMiddle_def getAngle_def atan2_def)

lemma arctan_3_4: "0 < arctan (3 / 4 :: real)" "arctan (3 / 4 :: real) < pi / 4"
proof -
  show "0 < arctan (3 / 4 :: real)" by (simp add: zero_less_arctan_iff)
  have "arctan (3 / 4 :: real) < arctan 1" by (simp add: arctan_less_iff)
  then show "arctan (3 / 4 :: real) < pi / 4" by (simp add: arctan_one)
qed

lemma mix_angle: "getAngleDiff (arctan (3 / 4)) 0 = arctan (3 / 4)"
proof -
  have "- pi < 0 - arctan (3 / 4 :: real)" and "0 - arctan (3 / 4 :: real) \<le> pi"
    using arctan_3_4 pi_gt_zero by linarith+
  then have "getAngleDiff (arctan (3 / 4)) 0 = \<bar>0 - arctan (3 / 4)\<bar>"
    by (rule getAngleDiff_near)
  with arctan_3_4 show ?thesis by simp
qed

lemma mix_elements:
  "map info_element (elements (Number 0) mixPage (button 0 0 0 10 10)) =
     [button 2 100 0 10 10, button 1 16 13 2 2]"
  using arctan_3_4
  by (simp add: elements_def mixPage_def pageOf_def getFocusableElements_def Let_def toInfo_def
      mix_near mix_far button_sel ident_neq rect_simps
      inDirection_def getAngleDiffJS_def getAngleDiff_self mix_angle onScreenOrAligned_def
      arraySort_def compareInfo_def)

lemma mix_moveFocus:
  "activeElement (fst (moveFocus (keyToAngle ''ArrowRight'') mixPage)) = Some (button 2 100 0 10 10)"
proof -
  have k: "keyToAngle ''ArrowRight'' = Number 0" by (simp add: keyToAngle_def)
  have a: "activeElement mixPage = Some (button 0 0 0 10 10)"
    by (simp add: mixPage_def pageOf_def)
  show ?thesis
    unfolding k moveFocus_walk [OF a] mix_elements by (simp add: button_sel)
qed

lemma mix_moveFocus2:
  "activeElement (fst (moveFocus2 ''ArrowRight'' mixPage)) = Some (button 1 16 13 2 2)"
  using arctan_3_4
  by (simp add: moveFocus2_def mixPage_def pageOf_def getFocusableElements_def Let_def
      dirToAngle_def considerElement_def initialBest_def
      mix_near mix_far button_sel ident_neq rect_simps
      getAngleDiffJS_def getAngleDiff_self mix_angle focus_def)

section \<open>The claims\<close>

text \<open>
  C1. The candidates are to be ranked by alignment, then by distance, then by the angular
  distance of \<open>midAngle\<close> to the direction. The comparator reads both angles of its last step
  from its first argument, so the third criterion never decides: on \<open>tiePage\<close>, with the key
  \<open>ArrowRight\<close>, both candidates are aligned and 10 pixels away and the lower one is nearer to
  the direction, the comparator returns 0 for the two, and the upper one, first in the
  document, is ranked first and takes the focus.
\<close>

theorem ranking_never_compares_angles:
  "map info_element (elements (keyToAngle ''ArrowRight'') tiePage (button 0 0 40 10 10)) =
     [button 1 20 5 10 40, button 2 20 45 10 5] \<and>
   areAligned (toInfo (boundingClientRect (button 0 0 40 10 10)) (button 1 20 5 10 40)) \<and>
   areAligned (toInfo (boundingClientRect (button 0 0 40 10 10)) (button 2 20 45 10 5)) \<and>
   distance (toInfo (boundingClientRect (button 0 0 40 10 10)) (button 1 20 5 10 40)) = 10 \<and>
   distance (toInfo (boundingClientRect (button 0 0 40 10 10)) (button 2 20 45 10 5)) = 10 \<and>
   getAngleDiff (midAngle (toInfo (boundingClientRect (button 0 0 40 10 10)) (button 2 20 45 10 5))) 0
     < getAngleDiff
         (midAngle (toInfo (boundingClientRect (button 0 0 40 10 10)) (button 1 20 5 10 40))) 0 \<and>
   compareInfo (keyToAngle ''ArrowRight'')
     (toInfo (boundingClientRect (button 0 0 40 10 10)) (button 2 20 45 10 5))
     (toInfo (boundingClientRect (button 0 0 40 10 10)) (button 1 20 5 10 40)) = 0 \<and>
   activeElement (fst (moveFocus (keyToAngle ''ArrowRight'') tiePage)) = Some (button 1 20 5 10 40)"
proof -
  have k: "keyToAngle ''ArrowRight'' = Number 0" by (simp add: keyToAngle_def)
  have ranked: "map info_element (elements (Number 0) tiePage (button 0 0 40 10 10)) =
     [button 1 20 5 10 40, button 2 20 45 10 5]"
    by (simp add: tie_elements info_element_toInfo)
  have infos: "toInfo (boundingClientRect (button 0 0 40 10 10)) (button 1 20 5 10 40) =
      \<lparr>distance = 10, areAligned = True, midAngle = - (pi / 4), minAngle = 0,
       info_element = button 1 20 5 10 40,
       info_rect = \<lparr>rect_x = 20, rect_y = 5, rect_width = 10, rect_height = 40\<rparr>\<rparr>"
    "toInfo (boundingClientRect (button 0 0 40 10 10)) (button 2 20 45 10 5) =
      \<lparr>distance = 10, areAligned = True, midAngle = arctan (1 / 8), minAngle = 0,
       info_element = button 2 20 45 10 5,
       info_rect = \<lparr>rect_x = 20, rect_y = 45, rect_width = 10, rect_height = 5\<rparr>\<rparr>"
    by (simp_all add: toInfo_def Let_def button_sel tie_upper tie_lower)
  have less: "getAngleDiff (arctan (1 / 8)) 0 < getAngleDiff (- (pi / 4)) 0"
    unfolding tie_angles by (rule arctan_1_8)
  have moved: "activeElement (fst (moveFocus (Number 0) tiePage)) = Some (button 1 20 5 10 40)"
    unfolding moveFocus_walk [OF tiePage_active] ranked
    by (simp add: button_sel)
  from ranked infos less moved show ?thesis
    unfolding k by (simp add: compareInfo_tie)
qed

text \<open>
  C2. The direction filter keeps a candidate exactly when the angular distance of its
  \<open>minAngle\<close> to the direction is not greater than \<open>pi / 4\<close>. A candidate above the focused
  element (their horizontal spans share a coordinate, its top is smaller, their vertical
  spans share none) passes the filter of the key \<open>ArrowUp\<close>, and is among the ranked candidates
  when it is focusable, visible and not the focused element itself, however far it is.
\<close>

theorem direction_filter_uses_minAngle:
  "filter (inDirection (Number m)) infos =
     filter (\<lambda>i. \<not> pi / 4 < getAngleDiff (minAngle i) m) infos \<and>
   (max (rect_left (boundingClientRect cur)) (rect_left (boundingClientRect el))
      \<le> min (rect_right (boundingClientRect cur)) (rect_right (boundingClientRect el)) \<and>
    rect_top (boundingClientRect el) < rect_top (boundingClientRect cur) \<and>
    \<not> max (rect_top (boundingClientRect cur)) (rect_top (boundingClientRect el))
        \<le> min (rect_bottom (boundingClientRect cur)) (rect_bottom (boundingClientRect el))
    \<longrightarrow> inDirection (keyToAngle ''ArrowUp'') (toInfo (boundingClientRect cur) el) \<and>
        (el \<in> set (getFocusableElements p) \<and> el \<noteq> cur \<and> checkVisibility el
         \<longrightarrow> el \<in> info_element ` set (elements (keyToAngle ''ArrowUp'') p cur)))"
proof -
  have stage: "filter (inDirection (Number m)) infos =
      filter (\<lambda>i. \<not> pi / 4 < getAngleDiff (minAngle i) m) infos"
    by (rule filter_cong [OF refl]) (rule inDirection_Number)
  have kept: "inDirection (keyToAngle ''ArrowUp'') (toInfo (boundingClientRect cur) el) \<and>
        (el \<in> set (getFocusableElements p) \<and> el \<noteq> cur \<and> checkVisibility el
         \<longrightarrow> el \<in> info_element ` set (elements (keyToAngle ''ArrowUp'') p cur))"
    if ov: "max (rect_left (boundingClientRect cur)) (rect_left (boundingClientRect el))
        \<le> min (rect_right (boundingClientRect cur)) (rect_right (boundingClientRect el))"
      and top: "rect_top (boundingClientRect el) < rect_top (boundingClientRect cur)"
      and gap: "\<not> max (rect_top (boundingClientRect cur)) (rect_top (boundingClientRect el))
        \<le> min (rect_bottom (boundingClientRect cur)) (rect_bottom (boundingClientRect el))"
  proof -
    let ?i = "toInfo (boundingClientRect cur) el"
    from above_relation [OF ov top gap]
    have al: "areAligned ?i" and mn: "minAngle ?i = pi * 3 / 2"
      by (simp_all add: toInfo_def Let_def)
    have up: "keyToAngle ''ArrowUp'' = Number (pi * 3 / 2)"
      by (simp add: keyToAngle_def)
    have dir: "inDirection (keyToAngle ''ArrowUp'') ?i"
      unfolding up inDirection_Number mn getAngleDiff_self by simp
    have scr: "onScreenOrAligned p ?i"
      using al by (simp add: onScreenOrAligned_def)
    have "el \<in> info_element ` set (elements (keyToAngle ''ArrowUp'') p cur)"
      if "el \<in> set (getFocusableElements p)" "el \<noteq> cur" "checkVisibility el"
    proof -
      from that dir scr have "?i \<in> set (elements (keyToAngle ''ArrowUp'') p cur)"
        unfolding set_elements by blast
      then show ?thesis
        using info_element_toInfo [of "boundingClientRect cur" el] by force
    qed
    with dir show ?thesis by blast
  qed
  from stage kept show ?thesis by blast
qed

theorem direction_filter_uses_minAngle_witness:
  "inDirection (keyToAngle ''ArrowUp'')
     (toInfo (boundingClientRect (button 0 0 100 10 10)) (button 1 0 0 1000 10)) \<and>
   button 1 0 0 1000 10 \<in>
     info_element ` set (elements (keyToAngle ''ArrowUp'') upPage (button 0 0 100 10 10)) \<and>
   pi / 4 < getAngleDiff
     (midAngle (toInfo (boundingClientRect (button 0 0 100 10 10)) (button 1 0 0 1000 10)))
     (pi * 3 / 2)"
  using direction_filter_uses_minAngle
    [of _ _ "button 0 0 100 10 10" "button 1 0 0 1000 10" upPage]
    wide_above_midAngle
  by (simp add: button_sel rect_simps ident_neq upPage_def pageOf_def getFocusableElements_def
      toInfo_def Let_def wide_above)

text \<open>
  C3. With a focused element, \<open>moveFocus\<close> asks the ranked candidates in order to take the
  focus, up to and including the first one that takes it; that one becomes the active element
  and is scrolled into view. When none takes it, every candidate has been asked and the page
  is unchanged.
\<close>

theorem moveFocus_first_willing:
  assumes "activeElement p = Some cur"
  shows "moveFocus angle p =
     (let ranked = map info_element (elements angle p cur)
      in case find acceptsFocus ranked of
           None \<Rightarrow> (p, map FocusCall ranked)
         | Some el \<Rightarrow>
             (p\<lparr>activeElement := Some el\<rparr>,
              map FocusCall (takeWhile (\<lambda>e. \<not> acceptsFocus e) ranked)
              @ [FocusCall el, ScrollIntoViewCall el]))"
  using assms by (rule moveFocus_walk)

theorem moveFocus_first_willing_witness:
  "moveFocus (keyToAngle ''ArrowRight'') retryPage =
     (retryPage\<lparr>activeElement := Some (button 2 40 0 10 10)\<rparr>,
      [FocusCall (stubborn 1 20 0 10 10), FocusCall (button 2 40 0 10 10),
       ScrollIntoViewCall (button 2 40 0 10 10)]) \<and>
   moveFocus (keyToAngle ''ArrowRight'') stuckPage =
     (stuckPage, [FocusCall (stubborn 1 20 0 10 10)])"
proof -
  have k: "keyToAngle ''ArrowRight'' = Number 0" by (simp add: keyToAngle_def)
  have a: "activeElement retryPage = Some (button 0 0 0 10 10)"
    and b: "activeElement stuckPage = Some (button 0 0 0 10 10)"
    by (simp_all add: retryPage_def stuckPage_def pageOf_def)
  show ?thesis
    unfolding k
    using moveFocus_first_willing [OF a, of "Number 0"] moveFocus_first_willing [OF b, of "Number 0"]
    by (simp add: retry_elements stuck_elements button_sel stubborn_sel)
qed

text \<open>
  C4. A \<open>keydown\<close> of a navigation key calls \<open>moveFocus\<close> exactly when more than 100 ms have
  passed since \<open>lastEventTime\<close>, which then takes the reading of the clock after the call, and
  it prevents the default handling in both cases. In a sequence of such events with no \<open>keyup\<close>
  and a clock that does not run backwards, two events that call \<open>moveFocus\<close> are more than
  100 ms apart. A \<open>keyup\<close> of a navigation key sets \<open>lastEventTime\<close> to 0, so the next
  \<open>keydown\<close> calls \<open>moveFocus\<close> (the clock reads more than 100).
\<close>

theorem keydown_throttle:
  "(keyToAngle key \<noteq> Undefined \<longrightarrow>
      (invokesSelector (snd (keydown key now1 now2 s)) = (100 < now1 - lastEventTime s)) \<and>
      lastEventTime (fst (keydown key now1 now2 s)) =
        (if 100 < now1 - lastEventTime s then now2 else lastEventTime s) \<and>
      PreventDefault \<in> set (snd (keydown key now1 now2 s))) \<and>
   ((\<forall>e \<in> set evs. isNavKeyDown e) \<and> sorted (concat (map readings evs)) \<and>
      i < j \<and> j < length evs \<and>
      invokesSelector (run s0 evs ! i) \<and> invokesSelector (run s0 evs ! j) \<longrightarrow>
      100 < checkTime (evs ! j) - checkTime (evs ! i)) \<and>
   (keyToAngle key \<noteq> Undefined \<and> keyToAngle key2 \<noteq> Undefined \<longrightarrow>
      lastEventTime (fst (keyup key s)) = 0 \<and>
      (100 < now1 \<longrightarrow> invokesSelector (snd (keydown key2 now1 now2 (fst (keyup key s))))))"
proof -
  have up: "invokesSelector (snd (keydown key2 now1 now2 (fst (keyup key s))))" if "100 < now1"
    using that by (simp add: keydown_invokes_iff keyup_resets)
  show ?thesis
    using keydown_invokes_iff [of key now1 now2 s] keydown_lastEventTime [of key now1 now2 s]
      keydown_prevents_default [of key now1 now2 s]
      run_spacing [of evs i j s0] keyup_resets [of key s] up
    by blast
qed

theorem keydown_throttle_witness:
  "invokesSelector (run (initialState (pageOf [])) rapidKeys ! 0) \<and>
   \<not> invokesSelector (run (initialState (pageOf [])) rapidKeys ! 1) \<and>
   invokesSelector (run (initialState (pageOf [])) rapidKeys ! 2) \<and>
   100 < checkTime (rapidKeys ! 2) - checkTime (rapidKeys ! 0) \<and>
   PreventDefault \<in> set (snd (keydown ''ArrowDown'' 1010 1010 \<lparr>doc = pageOf [], lastEventTime = 1001\<rparr>)) \<and>
   \<not> invokesSelector (snd (keydown ''ArrowDown'' 1010 1010 \<lparr>doc = pageOf [], lastEventTime = 1001\<rparr>)) \<and>
   lastEventTime (fst (keyup ''ArrowDown'' \<lparr>doc = pageOf [], lastEventTime = 1001\<rparr>)) = 0 \<and>
   invokesSelector (snd (keydown ''ArrowDown'' 1010 1010
     (fst (keyup ''ArrowDown'' \<lparr>doc = pageOf [], lastEventTime = 1001\<rparr>))))"
  using keydown_throttle [where key = "''ArrowDown''" and ?key2.0 = "''ArrowDown''"
      and ?now1.0 = 1010 and ?now2.0 = 1010
      and s = "\<lparr>doc = pageOf [], lastEventTime = 1001\<rparr>"
      and evs = rapidKeys and i = 0 and j = 2 and ?s0.0 = "initialState (pageOf [])"]
  by (simp add: rapid_run invokesSelector_def keyToAngle_def)
     (simp add: rapidKeys_def keyToAngle_def)

text \<open>
  C5. Two rectangles whose spans overlap on both axes (the horizontal spans share a
  coordinate, and so do the vertical spans) are related with distance 0 and as aligned; in
  particular every rectangle is so related to itself.
\<close>

theorem getRectDiff_overlap_zero_aligned:
  "(max (rect_left a) (rect_left b) \<le> min (rect_right a) (rect_right b) \<and>
    max (rect_top a) (rect_top b) \<le> min (rect_bottom a) (rect_bottom b)
      \<longrightarrow> distance (getRectDiff a b) = 0 \<and> areAligned (getRectDiff a b)) \<and>
   distance (getRectDiff r r) = 0 \<and> areAligned (getRectDiff r r)"
proof -
  have self: "distance (getRectDiff r r) = 0 \<and> areAligned (getRectDiff r r)"
    using getRectDiff_both_aligned [of r r] rect_left_le_right [of r] rect_top_le_bottom [of r]
    by simp
  have two: "distance (getRectDiff a b) = 0 \<and> areAligned (getRectDiff a b)"
    if "max (rect_left a) (rect_left b) \<le> min (rect_right a) (rect_right b)"
      and "max (rect_top a) (rect_top b) \<le> min (rect_bottom a) (rect_bottom b)"
    using that getRectDiff_both_aligned [of b a] by simp
  from self two show ?thesis by blast
qed

theorem getRectDiff_overlap_zero_aligned_witness:
  "distance (getRectDiff \<lparr>rect_x = 0, rect_y = 0, rect_width = 100, rect_height = 100\<rparr>
                         \<lparr>rect_x = 50, rect_y = 100, rect_width = 10, rect_height = 20\<rparr>) = 0 \<and>
   areAligned (getRectDiff \<lparr>rect_x = 0, rect_y = 0, rect_width = 100, rect_height = 100\<rparr>
                           \<lparr>rect_x = 50, rect_y = 100, rect_width = 10, rect_height = 20\<rparr>)"
  using getRectDiff_overlap_zero_aligned
    [of "\<lparr>rect_x = 0, rect_y = 0, rect_width = 100, rect_height = 100\<rparr>"
        "\<lparr>rect_x = 50, rect_y = 100, rect_width = 10, rect_height = 20\<rparr>"]
  by (simp add: rect_left_def rect_right_def rect_top_def rect_bottom_def)

text \<open>
  C6. The angular distance is symmetric, lies between 0 and \<open>pi\<close>, and is 0 from an angle to
  itself.
\<close>

theorem getAngleDiff_symmetric_bounded_zero:
  "getAngleDiff a b = getAngleDiff b a \<and>
   0 \<le> getAngleDiff a b \<and> getAngleDiff a b \<le> pi \<and>
   getAngleDiff a a = 0"
  using getAngleDiff_sym [of a b] getAngleDiff_range [of a b] getAngleDiff_self [of a]
  by simp

text \<open>
  C7. A frame of \<open>loop\<close> restarts the transition exactly when the active element is not its
  target (the target moves to the previous element and the change time becomes the reading of
  the clock) and otherwise leaves the state as it is; its factor is the cubic ease-out of the
  clamped progress \<open>min 1 ((now - targetChangeTime) / 300)\<close>. So over the frames that follow
  a change of focus at time \<open>t0\<close>, while the focus stays: the factor is 0 in the frame of the
  change, it is the ease-out of the time since \<open>t0\<close> in every later frame, 1 in every frame
  from 300 ms after \<open>t0\<close>, and it does not decrease from a frame to a later one.
\<close>

theorem lerpPos_ease_out:
  "loop active now1 now st =
     (if targetElement st \<noteq> active
      then (\<lparr>targetElement = active, prevTargetElement = targetElement st,
             targetChangeTime = now1\<rparr>,
            lerpPos now now1)
      else (st, lerpPos now (targetChangeTime st))) \<and>
   lerpPos now t0 = 1 - (1 - min 1 ((now - t0) / 300)) ^ 3 \<and>
   lerpPos t0 t0 = 0 \<and>
   (t0 + 300 \<le> now \<longrightarrow> lerpPos now t0 = 1) \<and>
   (n1 \<le> n2 \<longrightarrow> lerpPos n1 t0 \<le> lerpPos n2 t0) \<and>
   (targetElement st \<noteq> active \<and> (\<forall>f \<in> set fs. fst f = active) \<and> k < length fs \<longrightarrow>
      hd (frames st ((active, t0, t0) # fs)) = 0 \<and>
      frames st ((active, t0, t0) # fs) ! Suc k = lerpPos (snd (snd (fs ! k))) t0 \<and>
      (t0 + 300 \<le> snd (snd (fs ! k)) \<longrightarrow> frames st ((active, t0, t0) # fs) ! Suc k = 1) \<and>
      (j \<le> k \<and> snd (snd (fs ! j)) \<le> snd (snd (fs ! k)) \<longrightarrow>
         frames st ((active, t0, t0) # fs) ! Suc j \<le> frames st ((active, t0, t0) # fs) ! Suc k))"
proof -
  have step: "loop active now1 now st =
     (if targetElement st \<noteq> active
      then (\<lparr>targetElement = active, prevTargetElement = targetElement st,
             targetChangeTime = now1\<rparr>,
            lerpPos now now1)
      else (st, lerpPos now (targetChangeTime st)))"
    by (simp add: loop_changed loop_unchanged)
  have a: "lerpPos t0 t0 = 0"
    by (simp add: lerpPos_def easeOut_def)
  have b: "lerpPos t t0 = 1" if "t0 + 300 \<le> t" for t
  proof -
    from that have "1 \<le> (t - t0) / 300" by simp
    then have "min 1 ((t - t0) / 300) = 1" by simp
    then show ?thesis by (simp add: lerpPos_def easeOut_def animationTime_def)
  qed
  have c: "lerpPos now t0 = 1 - (1 - min 1 ((now - t0) / 300)) ^ 3"
    by (simp add: lerpPos_def easeOut_def animationTime_def)
  have run: "hd (frames st ((active, t0, t0) # fs)) = 0 \<and>
      frames st ((active, t0, t0) # fs) ! Suc k = lerpPos (snd (snd (fs ! k))) t0 \<and>
      (t0 + 300 \<le> snd (snd (fs ! k)) \<longrightarrow> frames st ((active, t0, t0) # fs) ! Suc k = 1) \<and>
      (j \<le> k \<and> snd (snd (fs ! j)) \<le> snd (snd (fs ! k)) \<longrightarrow>
         frames st ((active, t0, t0) # fs) ! Suc j \<le> frames st ((active, t0, t0) # fs) ! Suc k)"
    if ch: "targetElement st \<noteq> active" and same: "\<forall>f \<in> set fs. fst f = active"
      and k: "k < length fs"
  proof -
    have h: "hd (frames st ((active, t0, t0) # fs)) = 0"
      using ch a by (simp add: loop_changed)
    have fk: "frames st ((active, t0, t0) # fs) ! Suc k = lerpPos (snd (snd (fs ! k))) t0"
      using ch same k by (rule frames_after_change)
    have one: "frames st ((active, t0, t0) # fs) ! Suc k = 1" if "t0 + 300 \<le> snd (snd (fs ! k))"
      unfolding fk using that by (rule b)
    have mono: "frames st ((active, t0, t0) # fs) ! Suc j \<le> frames st ((active, t0, t0) # fs) ! Suc k"
      if "j \<le> k" and le: "snd (snd (fs ! j)) \<le> snd (snd (fs ! k))"
    proof -
      from that k have "j < length fs" by simp
      with ch same have "frames st ((active, t0, t0) # fs) ! Suc j = lerpPos (snd (snd (fs ! j))) t0"
        by (rule frames_after_change)
      with fk le show ?thesis by (simp add: lerpPos_mono)
    qed
    from h fk one mono show ?thesis by blast
  qed
  from step a b [of now] c run lerpPos_mono [of n1 n2 t0] show ?thesis by blast
qed

theorem lerpPos_ease_out_witness:
  "hd (frames \<lparr>targetElement = None, prevTargetElement = None, targetChangeTime = 0\<rparr>
         [(Some (button 1 0 0 10 10), 1000, 1000), (Some (button 1 0 0 10 10), 1150, 1150),
          (Some (button 1 0 0 10 10), 1300, 1300), (Some (button 1 0 0 10 10), 5000, 5000)]) = 0 \<and>
   frames \<lparr>targetElement = None, prevTargetElement = None, targetChangeTime = 0\<rparr>
     [(Some (button 1 0 0 10 10), 1000, 1000), (Some (button 1 0 0 10 10), 1150, 1150),
      (Some (button 1 0 0 10 10), 1300, 1300), (Some (button 1 0 0 10 10), 5000, 5000)] ! Suc 0
     = 7 / 8 \<and>
   frames \<lparr>targetElement = None, prevTargetElement = None, targetChangeTime = 0\<rparr>
     [(Some (button 1 0 0 10 10), 1000, 1000), (Some (button 1 0 0 10 10), 1150, 1150),
      (Some (button 1 0 0 10 10), 1300, 1300), (Some (button 1 0 0 10 10), 5000, 5000)]
     ! Suc (Suc 0) = 1 \<and>
   frames \<lparr>targetElement = None, prevTargetElement = None, targetChangeTime = 0\<rparr>
     [(Some (button 1 0 0 10 10), 1000, 1000), (Some (button 1 0 0 10 10), 1150, 1150),
      (Some (button 1 0 0 10 10), 1300, 1300), (Some (button 1 0 0 10 10), 5000, 5000)]
     ! Suc (Suc (Suc 0)) = 1 \<and>
   lerpPos 1000 1000 = 0 \<and> lerpPos 1300 1000 = 1 \<and> lerpPos 1100 1000 \<le> lerpPos 1150 1000"
proof -
  let ?b = "Some (button 1 0 0 10 10)"
  let ?st = "\<lparr>targetElement = None, prevTargetElement = None, targetChangeTime = 0\<rparr>"
  let ?fs = "[(?b, 1150, 1150), (?b, 1300, 1300), (?b, 5000, 5000 :: real)]"
  let ?all = "(?b, 1000, 1000 :: real) # ?fs"
  note t = lerpPos_ease_out [where active = ?b and st = ?st and fs = ?fs and ?t0.0 = 1000
      and ?n1.0 = 1100 and ?n2.0 = 1150 and now = 1300 and ?now1.0 = 1300]
  have v: "lerpPos 1150 1000 = 7 / 8"
    by (simp add: lerpPos_def easeOut_def animationTime_def power3_eq_cube)
  have f0: "hd (frames ?st ?all) = 0" and f1: "frames ?st ?all ! Suc 0 = lerpPos 1150 1000"
    and l: "lerpPos 1000 1000 = 0" "lerpPos 1300 1000 = 1" "lerpPos 1100 1000 \<le> lerpPos 1150 1000"
    using t [where k = 0 and j = 0] by (simp_all del: frames.simps)
  have f2: "frames ?st ?all ! Suc (Suc 0) = 1"
    using t [where k = "Suc 0" and j = 0] by (simp del: frames.simps)
  have f3: "frames ?st ?all ! Suc (Suc (Suc 0)) = 1"
    using t [where k = "Suc (Suc 0)" and j = 0] by (simp del: frames.simps)
  from f0 f1 f2 f3 l v show ?thesis by (simp only:)
qed

text \<open>
  C8. None of the four corner radii computed for an element is greater than the larger of the
  width and the height of its bounding rectangle, whatever radius its style declares; when
  there is no element (\<open>null\<close>) all four radii are 0.
\<close>

theorem getBorderRadius_clamped:
  "\<not> jsLess (Fin (max (rect_width (boundingClientRect el)) (rect_height (boundingClientRect el))))
            (topLeft (getBorderRadius (Some el))) \<and>
   \<not> jsLess (Fin (max (rect_width (boundingClientRect el)) (rect_height (boundingClientRect el))))
            (topRight (getBorderRadius (Some el))) \<and>
   \<not> jsLess (Fin (max (rect_width (boundingClientRect el)) (rect_height (boundingClientRect el))))
            (bottomLeft (getBorderRadius (Some el))) \<and>
   \<not> jsLess (Fin (max (rect_width (boundingClientRect el)) (rect_height (boundingClientRect el))))
            (bottomRight (getBorderRadius (Some el))) \<and>
   getBorderRadius None =
     \<lparr>topLeft = Fin 0, topRight = Fin 0, bottomLeft = Fin 0, bottomRight = Fin 0\<rparr>"
  by (simp add: getBorderRadius_def Let_def jsMin_not_greater max.commute)

theorem getBorderRadius_clamped_witness:
  "topLeft (getBorderRadius (Some (pill 100 50 100 9999))) = Fin 100 \<and>
   \<not> jsLess (Fin 100) (topLeft (getBorderRadius (Some (pill 100 50 100 9999)))) \<and>
   topLeft (getBorderRadius (Some (pill 100 50 0 9999))) = Fin 100 \<and>
   topLeft (getBorderRadius (Some (pill 0 50 0 9999))) = NaN \<and>
   \<not> jsLess (Fin 50) (topLeft (getBorderRadius (Some (pill 0 50 0 9999))))"
  using getBorderRadius_clamped [of "pill 100 50 100 9999"]
    getBorderRadius_clamped [of "pill 0 50 0 9999"]
  by (simp add: getBorderRadius_def pill_def jsDivide_def)

text \<open>
  C9. The key \<open>Backspace\<close> is to call \<open>history.back()\<close> and prevent the default handling,
  whatever the state of the throttle. \<open>keyToAngle\<close> returns \<open>undefined\<close> for it, which is not
  \<open>null\<close>, so the listener takes the branch of the navigation keys: after more than 100 ms it
  calls \<open>moveFocus\<close> with \<open>undefined\<close> and stores the time, otherwise it only prevents the
  default; it never calls \<open>history.back()\<close>. The listener of the other script does.
\<close>

theorem backspace_handled_as_navigation:
  "keydown ''Backspace'' 1000 1001 (initialState tiePage) =
     (\<lparr>doc = tiePage, lastEventTime = 1001\<rparr>,
      [MoveFocusCall Undefined, PreventDefault, StopImmediatePropagation]) \<and>
   keydown ''Backspace'' 1050 1051 \<lparr>doc = tiePage, lastEventTime = 1001\<rparr> =
     (\<lparr>doc = tiePage, lastEventTime = 1001\<rparr>, [PreventDefault, StopImmediatePropagation]) \<and>
   (\<forall>now1 now2 s. HistoryBack \<notin> set (snd (keydown ''Backspace'' now1 now2 s))) \<and>
   (\<forall>now1 now2 s. keydown2 ''Backspace'' now1 now2 s = (s, [HistoryBack, PreventDefault]))"
proof -
  have k: "keyToAngle ''Backspace'' = Undefined" by (simp add: keyToAngle_def)
  have a: "activeElement (doc (initialState tiePage)) = Some (button 0 0 40 10 10)"
    and b: "activeElement (doc \<lparr>doc = tiePage, lastEventTime = 1001\<rparr>) = Some (button 0 0 40 10 10)"
    by (simp_all add: initialState_def tiePage_active)
  have first: "keydown ''Backspace'' 1000 1001 (initialState tiePage) =
     (\<lparr>doc = tiePage, lastEventTime = 1001\<rparr>,
      [MoveFocusCall Undefined, PreventDefault, StopImmediatePropagation])"
    unfolding keydown_unmapped [OF k a] by (simp add: initialState_def)
  have second: "keydown ''Backspace'' 1050 1051 \<lparr>doc = tiePage, lastEventTime = 1001\<rparr> =
     (\<lparr>doc = tiePage, lastEventTime = 1001\<rparr>, [PreventDefault, StopImmediatePropagation])"
    unfolding keydown_unmapped [OF k b] by simp
  have other: "keydown2 ''Backspace'' now1 now2 s = (s, [HistoryBack, PreventDefault])"
    for now1 now2 s
    by (simp add: keydown2_def)
  from first second other keydown_never_history_back show ?thesis by blast
qed

text \<open>
  C10. A key that is neither a navigation key nor \<open>Backspace\<close> is to leave everything as it
  is. For the key \<open>x\<close> the listener takes the branch of the navigation keys: it calls
  \<open>moveFocus\<close> with \<open>undefined\<close>, stores the time, prevents the default handling and stops the
  propagation; on a page with no active element the first focusable element takes the focus.
  The listener of the other script does nothing for this key.
\<close>

theorem unmapped_key_handled_as_navigation:
  "keydown ''x'' 1000 1001 (initialState tiePage) =
     (\<lparr>doc = tiePage, lastEventTime = 1001\<rparr>,
      [MoveFocusCall Undefined, PreventDefault, StopImmediatePropagation]) \<and>
   keydown ''x'' 1000 1001 (initialState (unfocusedPageOf [button 1 20 0 10 50])) =
     (\<lparr>doc = (unfocusedPageOf [button 1 20 0 10 50])\<lparr>activeElement := Some (button 1 20 0 10 50)\<rparr>,
       lastEventTime = 1001\<rparr>,
      [MoveFocusCall Undefined, FocusCall (button 1 20 0 10 50),
       PreventDefault, StopImmediatePropagation]) \<and>
   (\<forall>now1 now2 s. keydown2 ''x'' now1 now2 s = (s, []))"
proof -
  have k: "keyToAngle ''x'' = Undefined" by (simp add: keyToAngle_def)
  have a: "activeElement (doc (initialState tiePage)) = Some (button 0 0 40 10 10)"
    by (simp add: initialState_def tiePage_active)
  have first: "keydown ''x'' 1000 1001 (initialState tiePage) =
     (\<lparr>doc = tiePage, lastEventTime = 1001\<rparr>,
      [MoveFocusCall Undefined, PreventDefault, StopImmediatePropagation])"
    unfolding keydown_unmapped [OF k a] by (simp add: initialState_def)
  have second: "keydown ''x'' 1000 1001 (initialState (unfocusedPageOf [button 1 20 0 10 50])) =
     (\<lparr>doc = (unfocusedPageOf [button 1 20 0 10 50])\<lparr>activeElement := Some (button 1 20 0 10 50)\<rparr>,
       lastEventTime = 1001\<rparr>,
      [MoveFocusCall Undefined, FocusCall (button 1 20 0 10 50),
       PreventDefault, StopImmediatePropagation])"
    by (simp add: keydown_def Let_def k initialState_def moveFocus_def unfocusedPageOf_def
        getFocusableElements_def button_sel focus_def)
  have other: "keydown2 ''x'' now1 now2 s = (s, [])" for now1 now2 s
    by (simp add: keydown2_def)
  from first second other show ?thesis by blast
qed

end
